theory Spec2Isabelle
  imports Main
begin

section \<open>Text: characters, classes and the string methods used\<close>

text \<open>
  A Python \<open>str\<close> is modelled as a \<open>string\<close>: a list of 8-bit characters, each read as
  the Unicode code point of the same number (U+0000 to U+00FF). The predicates below are
  Python's own on that range: \<open>str.isspace\<close> (which is also what \<open>\s\<close> of a \<open>str\<close>
  pattern and \<open>str.strip()\<close> use), \<open>str.isalnum\<close> or underscore (\<open>\w\<close>), the decimal digits
  (\<open>\d\<close>), and \<open>str.lower\<close>.
\<close>

definition code_point :: "char \<Rightarrow> nat" where
  "code_point c = of_char c"

definition is_ascii :: "char \<Rightarrow> bool" where
  "is_ascii c = (code_point c < 128)"

definition is_space :: "char \<Rightarrow> bool" where
  "is_space c = (let n = code_point c in
     (9 \<le> n \<and> n \<le> 13) \<or> (28 \<le> n \<and> n \<le> 32) \<or> n = 133 \<or> n = 160)"

definition is_digit :: "char \<Rightarrow> bool" where
  "is_digit c = (let n = code_point c in 48 \<le> n \<and> n \<le> 57)"

definition is_upper_ascii :: "char \<Rightarrow> bool" where
  "is_upper_ascii c = (let n = code_point c in 65 \<le> n \<and> n \<le> 90)"

definition is_word :: "char \<Rightarrow> bool" where
  "is_word c = (let n = code_point c in
     (48 \<le> n \<and> n \<le> 57) \<or> (65 \<le> n \<and> n \<le> 90) \<or> n = 95 \<or> (97 \<le> n \<and> n \<le> 122) \<or>
     n = 170 \<or> n = 178 \<or> n = 179 \<or> n = 181 \<or> n = 185 \<or> n = 186 \<or>
     (188 \<le> n \<and> n \<le> 190) \<or> (192 \<le> n \<and> n \<le> 214) \<or> (216 \<le> n \<and> n \<le> 246) \<or>
     (248 \<le> n \<and> n \<le> 255))"

definition lower_char :: "char \<Rightarrow> char" where
  "lower_char c = (let n = code_point c in
     if (65 \<le> n \<and> n \<le> 90) \<or> (192 \<le> n \<and> n \<le> 222 \<and> n \<noteq> 215)
     then char_of (n + 32) else c)"

definition lower :: "string \<Rightarrow> string" where
  "lower s = map lower_char s"

definition strip :: "string \<Rightarrow> string" where
  "strip s = rev (dropWhile is_space (rev (dropWhile is_space s)))"

text \<open>\<open>s.split(sep)\<close> for a one-character separator: never empty, one piece more than
  there are separators.\<close>

fun split_char :: "char \<Rightarrow> string \<Rightarrow> string list" where
  "split_char sep [] = [[]]"
| "split_char sep (c # cs) =
     (if c = sep then [] # split_char sep cs
      else (case split_char sep cs of
              [] \<Rightarrow> [[c]]
            | p # ps \<Rightarrow> (c # p) # ps))"

text \<open>\<open>s.split(sep)[0]\<close>; the list is never empty, so the index is in range.\<close>

definition first_piece :: "char \<Rightarrow> string \<Rightarrow> string" where
  "first_piece sep s = (case split_char sep s of [] \<Rightarrow> [] | p # ps \<Rightarrow> p)"

text \<open>\<open>unidecode\<close> is a third-party library: it leaves ASCII characters as they are and
  replaces every other character by the ASCII text its table gives. The table is a
  parameter \<open>tr\<close> of the model.\<close>

definition unidecode :: "(char \<Rightarrow> string) \<Rightarrow> string \<Rightarrow> string" where
  "unidecode tr s = concat (map (\<lambda>c. if is_ascii c then [c] else tr c) s)"

section \<open>Regular expressions\<close>

text \<open>
  The constructs of \<open>re\<close> that the program's patterns use. A character class is a
  predicate; \<open>Star\<close>, \<open>Plus\<close> and \<open>LazyStar\<close> repeat a class (\<open>\s*\<close>, \<open>\d+\<close>, \<open>.*?\<close>): the
  patterns repeat nothing else. \<open>WordB\<close> is \<open>\b\<close>, \<open>Eos\<close> is \<open>$\<close>, \<open>NegLook\<close> is \<open>(?!...)\<close>.
\<close>

datatype regex =
    Eps
  | Lit string
  | Cls "char \<Rightarrow> bool"
  | Star "char \<Rightarrow> bool"
  | Plus "char \<Rightarrow> bool"
  | LazyStar "char \<Rightarrow> bool"
  | Opt regex
  | NegLook regex
  | WordB
  | Eos
  | Seq regex regex

definition Cat :: "regex list \<Rightarrow> regex" where
  "Cat rs = foldr Seq rs Eps"

text \<open>A position in the subject is the character before it (if any) and the text after
  it. \<open>rmatch\<close> lists the positions where a match starting here can end, in the order in
  which the backtracking matcher tries them: the first one is the match \<open>re\<close> reports.\<close>

type_synonym pos = "char option \<times> string"

definition chr_eq :: "bool \<Rightarrow> char \<Rightarrow> char \<Rightarrow> bool" where
  "chr_eq ic c d = (if ic then lower_char d = lower_char c else d = c)"

fun lit_match :: "bool \<Rightarrow> string \<Rightarrow> char option \<Rightarrow> string \<Rightarrow> pos list" where
  "lit_match ic [] p s = [(p, s)]"
| "lit_match ic (c # cs) p [] = []"
| "lit_match ic (c # cs) p (d # ds) =
     (if chr_eq ic c d then lit_match ic cs (Some d) ds else [])"

fun star_greedy :: "(char \<Rightarrow> bool) \<Rightarrow> char option \<Rightarrow> string \<Rightarrow> pos list" where
  "star_greedy P p [] = [(p, [])]"
| "star_greedy P p (d # ds) =
     (if P d then star_greedy P (Some d) ds @ [(p, d # ds)] else [(p, d # ds)])"

fun star_lazy :: "(char \<Rightarrow> bool) \<Rightarrow> char option \<Rightarrow> string \<Rightarrow> pos list" where
  "star_lazy P p [] = [(p, [])]"
| "star_lazy P p (d # ds) =
     (p, d # ds) # (if P d then star_lazy P (Some d) ds else [])"

definition word_before :: "char option \<Rightarrow> bool" where
  "word_before p = (case p of None \<Rightarrow> False | Some c \<Rightarrow> is_word c)"

definition word_after :: "string \<Rightarrow> bool" where
  "word_after s = (case s of [] \<Rightarrow> False | c # _ \<Rightarrow> is_word c)"

fun rmatch :: "bool \<Rightarrow> regex \<Rightarrow> char option \<Rightarrow> string \<Rightarrow> pos list" where
  "rmatch ic Eps p s = [(p, s)]"
| "rmatch ic (Lit w) p s = lit_match ic w p s"
| "rmatch ic (Cls P) p s =
     (case s of [] \<Rightarrow> [] | d # ds \<Rightarrow> if P d then [(Some d, ds)] else [])"
| "rmatch ic (Star P) p s = star_greedy P p s"
| "rmatch ic (Plus P) p s =
     (case s of [] \<Rightarrow> [] | d # ds \<Rightarrow> if P d then star_greedy P (Some d) ds else [])"
| "rmatch ic (LazyStar P) p s = star_lazy P p s"
| "rmatch ic (Opt r) p s = rmatch ic r p s @ [(p, s)]"
| "rmatch ic (NegLook r) p s = (if rmatch ic r p s = [] then [(p, s)] else [])"
| "rmatch ic WordB p s = (if word_before p \<noteq> word_after s then [(p, s)] else [])"
| "rmatch ic Eos p s = (if s = [] \<or> s = [CHR 0x0A] then [(p, s)] else [])"
| "rmatch ic (Seq a b) p s =
     concat (map (\<lambda>(p', s'). rmatch ic b p' s') (rmatch ic a p s))"

text \<open>The first match at a position, if it consumes at least one character. Every
  pattern given to \<open>re.sub\<close> and \<open>re.split\<close> in the program begins with a character it must
  consume, so none of them has an empty match.\<close>

definition first_match :: "bool \<Rightarrow> regex \<Rightarrow> char option \<Rightarrow> string \<Rightarrow> pos option" where
  "first_match ic r p s =
     (case rmatch ic r p s of
        [] \<Rightarrow> None
      | (p', s') # _ \<Rightarrow> if length s' < length s then Some (p', s') else None)"

text \<open>\<open>re.search(r, s)\<close>: is there a match starting at some position.\<close>

fun search_from :: "bool \<Rightarrow> regex \<Rightarrow> char option \<Rightarrow> string \<Rightarrow> bool" where
  "search_from ic r p [] = (rmatch ic r p [] \<noteq> [])"
| "search_from ic r p (c # cs) = (rmatch ic r p (c # cs) \<noteq> [] \<or> search_from ic r (Some c) cs)"

definition re_search :: "bool \<Rightarrow> regex \<Rightarrow> string \<Rightarrow> bool" where
  "re_search ic r s = search_from ic r None s"

text \<open>\<open>re.sub(r, repl, s)\<close>: the leftmost matches, one after the other, are replaced.\<close>

function sub_from :: "regex \<Rightarrow> string \<Rightarrow> char option \<Rightarrow> string \<Rightarrow> string" where
  "sub_from r repl p s =
     (case first_match False r p s of
        Some (p', s') \<Rightarrow> repl @ sub_from r repl p' s'
      | None \<Rightarrow> (case s of [] \<Rightarrow> [] | c # cs \<Rightarrow> c # sub_from r repl (Some c) cs))"
  by pat_completeness auto
termination
  by (relation "measure (\<lambda>(r, repl, p, s). length s)") (auto simp: first_match_def split: list.splits if_splits)

declare sub_from.simps [simp del]

definition re_sub :: "regex \<Rightarrow> string \<Rightarrow> string \<Rightarrow> string" where
  "re_sub r repl s = sub_from r repl None s"

text \<open>\<open>re.split(r, s)\<close>: the pieces between the leftmost matches (the pattern used has no
  capturing group). \<open>cur\<close> is the piece being read, reversed.\<close>

function split_from :: "regex \<Rightarrow> string \<Rightarrow> char option \<Rightarrow> string \<Rightarrow> string list" where
  "split_from r cur p s =
     (case first_match False r p s of
        Some (p', s') \<Rightarrow> rev cur # split_from r [] p' s'
      | None \<Rightarrow> (case s of [] \<Rightarrow> [rev cur] | c # cs \<Rightarrow> split_from r (c # cur) (Some c) cs))"
  by pat_completeness auto
termination
  by (relation "measure (\<lambda>(r, cur, p, s). length s)") (auto simp: first_match_def split: list.splits if_splits)

declare split_from.simps [simp del]

definition re_split :: "regex \<Rightarrow> string \<Rightarrow> string list" where
  "re_split r s = split_from r [] None s"

section \<open>The patterns of the text functions\<close>

definition newline :: char where
  "newline = CHR 0x0A"

text \<open>\<^verbatim>\<open>[\(\[].*?[\)\]]\<close>\<close>

definition BRACKETED :: regex where
  "BRACKETED = Cat [Cls (\<lambda>c. c = CHR ''('' \<or> c = CHR ''[''),
                    LazyStar (\<lambda>c. c \<noteq> newline),
                    Cls (\<lambda>c. c = CHR '')'' \<or> c = CHR '']'')]"

text \<open>\<^verbatim>\<open>[^\w\s-]\<close>\<close>

definition NOT_WORD_SPACE_HYPHEN :: regex where
  "NOT_WORD_SPACE_HYPHEN = Cls (\<lambda>c. \<not> (is_word c \<or> is_space c \<or> c = CHR ''-''))"

text \<open>\<^verbatim>\<open>\s+\<close>\<close>

definition SPACES :: regex where
  "SPACES = Plus is_space"

text \<open>\<^verbatim>\<open>,\s*(?![^()]*\))\<close>\<close>

definition COMMA_OUTSIDE_PARENS :: regex where
  "COMMA_OUTSIDE_PARENS =
     Cat [Lit '','', Star is_space,
          NegLook (Cat [Star (\<lambda>c. c \<noteq> CHR ''('' \<and> c \<noteq> CHR '')''), Lit '')''])]"

text \<open>\<^verbatim>\<open>\s*\(\s*\d+(\.\d+)?\s*%\s*\)\s*$\<close>\<close>

definition PERCENT_IN_PARENS :: regex where
  "PERCENT_IN_PARENS =
     Cat [Star is_space, Lit ''('', Star is_space, Plus is_digit,
          Opt (Cat [Lit ''.'', Plus is_digit]), Star is_space, Lit ''%'', Star is_space,
          Lit '')'', Star is_space, Eos]"

text \<open>\<^verbatim>\<open>\s*\d+(\.\d+)?\s*%\s*$\<close>\<close>

definition PERCENT_BARE :: regex where
  "PERCENT_BARE =
     Cat [Star is_space, Plus is_digit, Opt (Cat [Lit ''.'', Plus is_digit]),
          Star is_space, Lit ''%'', Star is_space, Eos]"

section \<open>Loosely typed values\<close>

text \<open>The fields of a source record hold values of any type. \<open>truthy\<close> is Python's truth
  test, \<open>py_or\<close> is \<open>a or b\<close>.\<close>

datatype pyval =
    PNone
  | PBool bool
  | PInt int
  | PStr string
  | PList "pyval list"
  | PDict "(string \<times> pyval) list"

fun truthy :: "pyval \<Rightarrow> bool" where
  "truthy PNone = False"
| "truthy (PBool b) = b"
| "truthy (PInt i) = (i \<noteq> 0)"
| "truthy (PStr s) = (s \<noteq> [])"
| "truthy (PList xs) = (xs \<noteq> [])"
| "truthy (PDict kvs) = (kvs \<noteq> [])"

definition py_or :: "pyval \<Rightarrow> pyval \<Rightarrow> pyval" where
  "py_or a b = (if truthy a then a else b)"

datatype exn = IOError | TypeError

text \<open>A Python set of strings that the program iterates over is a list without
  duplicates, in the order the elements were added; \<open>set_add\<close> is \<open>s.add(x)\<close>.\<close>

definition set_add :: "string \<Rightarrow> string list \<Rightarrow> string list" where
  "set_add x xs = (if x \<in> set xs then xs else xs @ [x])"

section \<open>Normalizer and splitter\<close>

definition normalize_ingredient_name :: "(char \<Rightarrow> string) \<Rightarrow> string \<Rightarrow> string option" where
  "normalize_ingredient_name tr name0 =
     (if name0 = [] then None
      else
        let name1 = lower name0;
            name2 = unidecode tr name1;
            name3 = re_sub BRACKETED [] name2;
            name4 = re_sub NOT_WORD_SPACE_HYPHEN [] name3;
            name5 = strip (re_sub SPACES '' '' name4)
        in if name5 = [] then None else Some name5)"

text \<open>
  The body of the loop of \<open>parse_ingredients_from_text\<close>. The separator of the second
  split is the three code points U+00E2, U+20AC, U+201C; the last two are beyond U+00FF,
  so no text of the model contains it and that split leaves the item as it is.
\<close>

definition clean_item :: "string \<Rightarrow> string" where
  "clean_item item =
     (let item_clean1 = first_piece CHR '':'' item;
          item_clean2 = item_clean1;
          item_clean3 = strip (re_sub PERCENT_IN_PARENS [] (strip item_clean2));
          item_clean4 = strip (re_sub PERCENT_BARE [] (strip item_clean3))
      in item_clean4)"

definition add_item :: "(char \<Rightarrow> string) \<Rightarrow> string list \<Rightarrow> string \<Rightarrow> string list" where
  "add_item tr normalized_ingredients item =
     (case normalize_ingredient_name tr (clean_item item) of
        None \<Rightarrow> normalized_ingredients
      | Some normalized \<Rightarrow> set_add normalized normalized_ingredients)"

text \<open>The argument is whatever the record holds: a false value gives the empty set, a
  true value that is not a string makes \<open>re.split\<close> raise \<open>TypeError\<close>.\<close>

definition parse_ingredients_from_text :: "(char \<Rightarrow> string) \<Rightarrow> pyval \<Rightarrow> exn + string list" where
  "parse_ingredients_from_text tr ingredients_text_str =
     (if \<not> truthy ingredients_text_str then Inr []
      else (case ingredients_text_str of
              PStr s \<Rightarrow> Inr (foldl (add_item tr) [] (re_split COMMA_OUTSIDE_PARENS s))
            | _ \<Rightarrow> Inl TypeError))"

section \<open>The static tables\<close>

definition KNOWN_ALLERGENS :: "string list" where
  "KNOWN_ALLERGENS =
     [''en:milk'', ''en:eggs'', ''en:fish'', ''en:crustaceans'', ''en:molluscs'',
      ''en:peanuts'', ''en:nuts'', ''en:soybeans'', ''en:gluten'', ''en:celery'',
      ''en:mustard'', ''en:sesame-seeds'', ''en:sulphur-dioxide-and-sulphites'', ''en:lupin'']"

text \<open>\<open>kw w\<close> is the pattern \<^verbatim>\<open>\bw\b\<close>, \<open>kw_opt w t\<close> is \<^verbatim>\<open>\bw(t)?\b\<close> (the group of
  \<^verbatim>\<open>casein(?:ate)?\<close> does not capture, which a search does not see).\<close>

definition kw :: "string \<Rightarrow> regex" where
  "kw w = Cat [WordB, Lit w, WordB]"

definition kw_opt :: "string \<Rightarrow> string \<Rightarrow> regex" where
  "kw_opt w t = Cat [WordB, Lit w, Opt (Lit t), WordB]"

text \<open>\<^verbatim>\<open>\bE22[0-8]\b\<close>\<close>

definition E22x :: regex where
  "E22x = Cat [WordB, Lit ''E22'', Cls (\<lambda>c. 48 \<le> code_point c \<and> code_point c \<le> 56), WordB]"

definition INGREDIENT_TO_ALLERGEN_MAP :: "(regex \<times> string) list" where
  "INGREDIENT_TO_ALLERGEN_MAP =
     [(kw ''milk'', ''en:milk''), (kw ''butter'', ''en:milk''), (kw ''cheese'', ''en:milk''),
      (kw ''cream'', ''en:milk''), (kw ''yogurt'', ''en:milk''), (kw_opt ''casein'' ''ate'', ''en:milk''),
      (kw ''whey'', ''en:milk''), (kw ''lactose'', ''en:milk''),
      (kw_opt ''egg'' ''s'', ''en:eggs''), (kw ''ovalbumin'', ''en:eggs''), (kw ''lysozyme'', ''en:eggs''),
      (kw ''albumin'', ''en:eggs''),
      (kw ''fish'', ''en:fish''), (kw ''salmon'', ''en:fish''), (kw ''tuna'', ''en:fish''), (kw ''cod'', ''en:fish''),
      (kw ''anchovy'', ''en:fish''), (kw ''trout'', ''en:fish''), (kw ''haddock'', ''en:fish''),
      (kw ''shrimp'', ''en:crustaceans''), (kw_opt ''prawn'' ''s'', ''en:crustaceans''), (kw ''crab'', ''en:crustaceans''),
      (kw ''lobster'', ''en:crustaceans''), (kw ''crayfish'', ''en:crustaceans''), (kw ''krill'', ''en:crustaceans''),
      (kw_opt ''mollusc'' ''s'', ''en:molluscs''), (kw_opt ''mussel'' ''s'', ''en:molluscs''), (kw_opt ''oyster'' ''s'', ''en:molluscs''),
      (kw ''squid'', ''en:molluscs''), (kw ''octopus'', ''en:molluscs''), (kw_opt ''snail'' ''s'', ''en:molluscs''),
      (kw_opt ''clam'' ''s'', ''en:molluscs''), (kw_opt ''scallop'' ''s'', ''en:molluscs''),
      (kw_opt ''peanut'' ''s'', ''en:peanuts''), (kw ''arachis'', ''en:peanuts''),
      (kw_opt ''nut'' ''s'', ''en:nuts''),
      (kw_opt ''almond'' ''s'', ''en:nuts''), (kw_opt ''hazelnut'' ''s'', ''en:nuts''), (kw_opt ''walnut'' ''s'', ''en:nuts''),
      (kw_opt ''cashew'' ''s'', ''en:nuts''), (kw_opt ''pecan'' ''s'', ''en:nuts''), (kw_opt ''brazil nut'' ''s'', ''en:nuts''),
      (kw_opt ''pistachio'' ''s'', ''en:nuts''), (kw_opt ''macadamia'' ''s'', ''en:nuts''), (kw_opt ''queensland nut'' ''s'', ''en:nuts''),
      (kw ''soy'', ''en:soybeans''), (kw ''soya'', ''en:soybeans''), (kw ''lecithin'', ''en:soybeans''),
      (kw ''tofu'', ''en:soybeans''), (kw ''edamame'', ''en:soybeans''), (kw ''miso'', ''en:soybeans''),
      (kw ''tempeh'', ''en:soybeans''), (kw ''bean curd'', ''en:soybeans''),
      (kw ''wheat'', ''en:gluten''), (kw ''gluten'', ''en:gluten''), (kw ''barley'', ''en:gluten''),
      (kw ''rye'', ''en:gluten''), (kw_opt ''oat'' ''s'', ''en:gluten''),
      (kw ''spelt'', ''en:gluten''), (kw ''kamut'', ''en:gluten''), (kw ''khorasan wheat'', ''en:gluten''),
      (kw ''semolina'', ''en:gluten''), (kw ''durum'', ''en:gluten''), (kw ''couscous'', ''en:gluten''),
      (kw ''triticale'', ''en:gluten''), (kw ''flour'', ''en:gluten''),
      (kw ''celery'', ''en:celery''), (kw ''celeriac'', ''en:celery''),
      (kw ''mustard'', ''en:mustard''),
      (kw ''sesame'', ''en:sesame-seeds''), (kw ''tahini'', ''en:sesame-seeds''),
      (kw_opt ''sulphite'' ''s'', ''en:sulphur-dioxide-and-sulphites''),
      (kw_opt ''sulfite'' ''s'', ''en:sulphur-dioxide-and-sulphites''),
      (kw ''sulphur dioxide'', ''en:sulphur-dioxide-and-sulphites''),
      (kw ''sulfur dioxide'', ''en:sulphur-dioxide-and-sulphites''),
      (E22x, ''en:sulphur-dioxide-and-sulphites''),
      (kw_opt ''lupin'' ''s'', ''en:lupin'')]"

definition DIETARY_PREFERENCES_MAP :: "(string \<times> string list) list" where
  "DIETARY_PREFERENCES_MAP =
     [(''vegan'', [''en:vegan'', ''vegan'']),
      (''vegetarian'', [''en:vegetarian'', ''vegetarian'']),
      (''gluten_free'', [''en:gluten-free'', ''gluten-free'', ''sans gluten'']),
      (''lactose_free'', [''en:lactose-free'', ''lactose-free'', ''sans lactose''])]"

definition DIETARY_CONFLICT_MAP :: "(string \<times> string list) list" where
  "DIETARY_CONFLICT_MAP =
     [(''vegan'',
        [''en:non-vegan'', ''en:milk'', ''en:eggs'', ''en:fish'', ''en:crustaceans'', ''en:molluscs'',
         ''en:meat'', ''en:dairy'', ''en:honey'', ''en:collagen'', ''en:gelatin'', ''en:cheese'']),
      (''vegetarian'',
        [''en:non-vegetarian'', ''en:fish'', ''en:crustaceans'', ''en:molluscs'', ''en:meat'',
         ''en:collagen'', ''en:gelatin'']),
      (''gluten_free'', [''en:gluten'']),
      (''lactose_free'', [''en:milk'', ''en:lactose''])]"

definition CSV_HEADER :: "string list" where
  "CSV_HEADER = [''LineType'', ''ID'', ''Name'', ''Label'', ''RelationshipType'',
                 ''FromID'', ''FromLabel'', ''ToID'', ''ToLabel'']"

section \<open>Source records and output rows\<close>

text \<open>A record of the source collection: the fields the program reads, each absent
  (\<open>None\<close>) or holding a value. \<open>doc_get f d\<close> is \<open>d.get(f)\<close>, \<open>doc_get_default f d v\<close> is
  \<open>d.get(f, v)\<close>.\<close>

record product_doc =
  code :: "pyval option"
  product_name :: "pyval option"
  product_name_en :: "pyval option"
  generic_name :: "pyval option"
  generic_name_en :: "pyval option"
  ingredients_text :: "pyval option"
  ingredients_text_en :: "pyval option"
  allergens_tags :: "pyval option"
  traces_tags :: "pyval option"
  labels_tags :: "pyval option"

definition doc_get_default :: "(product_doc \<Rightarrow> pyval option) \<Rightarrow> product_doc \<Rightarrow> pyval \<Rightarrow> pyval" where
  "doc_get_default f d v = (case f d of None \<Rightarrow> v | Some x \<Rightarrow> x)"

definition doc_get :: "(product_doc \<Rightarrow> pyval option) \<Rightarrow> product_doc \<Rightarrow> pyval" where
  "doc_get f d = doc_get_default f d PNone"

text \<open>A row is the list of the nine cells given to \<open>writer.writerow\<close>.\<close>

type_synonym row = "pyval list"

definition node_row :: "string \<Rightarrow> pyval \<Rightarrow> string \<Rightarrow> row" where
  "node_row ident name label =
     [PStr ''Node'', PStr ident, name, PStr label, PStr [], PStr [], PStr [], PStr [], PStr []]"

definition rel_row :: "string \<Rightarrow> string \<Rightarrow> string \<Rightarrow> string \<Rightarrow> string \<Rightarrow> row" where
  "rel_row rel_type from_id from_label to_id to_label =
     [PStr ''Relationship'', PStr [], PStr [], PStr [], PStr rel_type,
      PStr from_id, PStr from_label, PStr to_id, PStr to_label]"

text \<open>The columns of a row, as the header names them.\<close>

definition cell :: "nat \<Rightarrow> row \<Rightarrow> pyval" where
  "cell i r = (if i < length r then r ! i else PNone)"

definition line_type :: "row \<Rightarrow> pyval" where "line_type = cell 0"
definition row_id :: "row \<Rightarrow> pyval" where "row_id = cell 1"
definition row_label :: "row \<Rightarrow> pyval" where "row_label = cell 3"
definition rel_type :: "row \<Rightarrow> pyval" where "rel_type = cell 4"
definition from_id :: "row \<Rightarrow> pyval" where "from_id = cell 5"
definition from_label :: "row \<Rightarrow> pyval" where "from_label = cell 6"
definition to_id :: "row \<Rightarrow> pyval" where "to_id = cell 7"
definition to_label :: "row \<Rightarrow> pyval" where "to_label = cell 8"

text \<open>The number of Node rows of a kind (label) with an identifier.\<close>

definition count_nodes :: "pyval \<Rightarrow> pyval \<Rightarrow> row list \<Rightarrow> nat" where
  "count_nodes label ident rows =
     length (filter (\<lambda>r. line_type r = PStr ''Node'' \<and> row_label r = label \<and> row_id r = ident) rows)"

definition clean_tag :: "pyval \<Rightarrow> string option" where
  "clean_tag tag = (case tag of PStr s \<Rightarrow> Some (lower (strip s)) | _ \<Rightarrow> None)"

section \<open>The engine: one record\<close>

text \<open>
  Every function below returns the rows it gives to \<open>writer.writerow\<close>, in the order of
  the calls. \<open>written_ingredients\<close> is the ledger of ingredient names whose node row is
  out; it is passed in and returned.
\<close>

text \<open>The test of the product code (the third disjunct is reached for strings only).\<close>

definition rejected_code :: "pyval \<Rightarrow> bool" where
  "rejected_code product_code =
     (\<not> truthy product_code \<or>
      (case product_code of PStr s \<Rightarrow> strip s = [] | _ \<Rightarrow> True))"

definition choose_name :: "product_doc \<Rightarrow> string \<Rightarrow> pyval" where
  "choose_name d product_code =
     py_or (doc_get product_name_en d)
       (py_or (doc_get product_name d)
          (py_or (doc_get generic_name_en d)
             (py_or (doc_get generic_name d) (PStr (''Product '' @ product_code)))))"

text \<open>The rows of one ingredient that the keyword table gives: one \<open>IS_ALLERGEN\<close> row for
  every pattern that is found in the name and maps to a known allergen.\<close>

definition allergen_rows :: "string \<Rightarrow> row list" where
  "allergen_rows ing_name =
     concat (map (\<lambda>(keyword_pattern, allergen_tag_value).
        if re_search True keyword_pattern ing_name \<and> allergen_tag_value \<in> set KNOWN_ALLERGENS
        then [rel_row ''IS_ALLERGEN'' ing_name ''Ingredient'' allergen_tag_value ''Allergen'']
        else []) INGREDIENT_TO_ALLERGEN_MAP)"

text \<open>The inner loop with the flag and the \<open>break\<close>: is some pattern found in the name
  whose allergen is in the conflict set of the preference.\<close>

definition is_conflicting_ingredient :: "string \<Rightarrow> string list \<Rightarrow> bool" where
  "is_conflicting_ingredient ing_name conflicting_allergen_tags_for_diet =
     list_ex (\<lambda>(keyword_pattern, mapped_allergen_from_ingredient).
        re_search True keyword_pattern ing_name \<and>
        mapped_allergen_from_ingredient \<in> set conflicting_allergen_tags_for_diet)
       INGREDIENT_TO_ALLERGEN_MAP"

definition conflict_rows :: "string \<Rightarrow> row list" where
  "conflict_rows ing_name =
     concat (map (\<lambda>(diet_pref_name, conflicting_allergen_tags_for_diet).
        if is_conflicting_ingredient ing_name conflicting_allergen_tags_for_diet
        then [rel_row ''CONFLICTS_WITH_DIET'' ing_name ''Ingredient'' diet_pref_name ''DietaryPreference'']
        else []) DIETARY_CONFLICT_MAP)"

text \<open>The loop over the parsed ingredient names.\<close>

fun ingredients_loop :: "string \<Rightarrow> string set \<Rightarrow> string list \<Rightarrow> row list \<times> string set" where
  "ingredients_loop product_code written_ingredients [] = ([], written_ingredients)"
| "ingredients_loop product_code written_ingredients (ing_name # rest) =
     (let node = (if ing_name \<notin> written_ingredients
                  then [node_row ing_name (PStr []) ''Ingredient''] else []);
          written1 = insert ing_name written_ingredients;
          rows = node
            @ [rel_row ''HAS_INGREDIENT'' product_code ''Product'' ing_name ''Ingredient'']
            @ allergen_rows ing_name
            @ conflict_rows ing_name;
          (more, written2) = ingredients_loop product_code written1 rest
      in (rows @ more, written2))"

text \<open>The tags of a field that are known allergens: the body shared by the loops over
  \<open>allergens_tags\<close> and \<open>traces_tags\<close>.\<close>

definition add_known :: "string list \<Rightarrow> pyval \<Rightarrow> string list" where
  "add_known acc tag =
     (case clean_tag tag of
        None \<Rightarrow> acc
      | Some cleaned_tag \<Rightarrow>
          if cleaned_tag \<noteq> [] \<and> cleaned_tag \<in> set KNOWN_ALLERGENS
          then set_add cleaned_tag acc else acc)"

definition explicit_product_allergens :: "pyval \<Rightarrow> string list" where
  "explicit_product_allergens allergens_tags_raw =
     (case allergens_tags_raw of
        PList tags \<Rightarrow> foldl add_known [] tags
      | PStr s \<Rightarrow> foldl add_known [] (map PStr (split_char CHR '','' s))
      | _ \<Rightarrow> [])"

definition is_explained_by_ingredient :: "string \<Rightarrow> string list \<Rightarrow> bool" where
  "is_explained_by_ingredient allergen_name parsed_ingredient_names =
     list_ex (\<lambda>ing_name.
        list_ex (\<lambda>(keyword_pattern, mapped_allergen).
           re_search True keyword_pattern ing_name \<and> mapped_allergen = allergen_name)
          INGREDIENT_TO_ALLERGEN_MAP)
       parsed_ingredient_names"

definition proxy_ingredient_name :: "string \<Rightarrow> string \<Rightarrow> string" where
  "proxy_ingredient_name allergen_name product_code = allergen_name @ ''_source_for_'' @ product_code"

text \<open>The loop over the explicit allergens of the record.\<close>

fun proxies_loop :: "string \<Rightarrow> string list \<Rightarrow> string set \<Rightarrow> string list \<Rightarrow> row list \<times> string set" where
  "proxies_loop product_code parsed written_ingredients [] = ([], written_ingredients)"
| "proxies_loop product_code parsed written_ingredients (allergen_name # rest) =
     (if is_explained_by_ingredient allergen_name parsed
      then proxies_loop product_code parsed written_ingredients rest
      else
        let proxy = proxy_ingredient_name allergen_name product_code;
            node = (if proxy \<notin> written_ingredients
                    then [node_row proxy (PStr []) ''Ingredient''] else []);
            written1 = insert proxy written_ingredients;
            rows = node
              @ [rel_row ''HAS_INGREDIENT'' product_code ''Product'' proxy ''Ingredient'',
                 rel_row ''IS_ALLERGEN'' proxy ''Ingredient'' allergen_name ''Allergen''];
            (more, written2) = proxies_loop product_code parsed written1 rest
        in (rows @ more, written2))"

text \<open>A tag field given as one string is cut at the commas, the pieces stripped and the
  empty ones dropped; any other value is left as it is.\<close>

definition tags_as_list :: "pyval \<Rightarrow> pyval" where
  "tags_as_list tags_data =
     (case tags_data of
        PStr s \<Rightarrow> PList (map PStr (filter (\<lambda>t. t \<noteq> []) (map strip (split_char CHR '','' s))))
      | _ \<Rightarrow> tags_data)"

definition processed_traces_allergens :: "pyval \<Rightarrow> string list" where
  "processed_traces_allergens traces_tags_data =
     (case tags_as_list traces_tags_data of
        PList tags \<Rightarrow> foldl add_known [] tags
      | _ \<Rightarrow> [])"

definition add_label :: "string list \<Rightarrow> pyval \<Rightarrow> string list" where
  "add_label acc label_tag_raw =
     (case clean_tag label_tag_raw of
        None \<Rightarrow> acc
      | Some cleaned_label \<Rightarrow> if cleaned_label \<noteq> [] then set_add cleaned_label acc else acc)"

definition product_dietary_labels :: "pyval \<Rightarrow> string list" where
  "product_dietary_labels labels_tags_data =
     (case tags_as_list labels_tags_data of
        PList tags \<Rightarrow> foldl add_label [] tags
      | _ \<Rightarrow> [])"

definition suitable_diet_prefs_for_product :: "string list \<Rightarrow> string list" where
  "suitable_diet_prefs_for_product labels =
     foldl (\<lambda>acc (diet_name_key, diet_keywords_set).
        if set diet_keywords_set \<inter> set labels \<noteq> {} then set_add diet_name_key acc else acc)
       [] DIETARY_PREFERENCES_MAP"

definition ingredients_text_of :: "product_doc \<Rightarrow> pyval" where
  "ingredients_text_of d =
     py_or (doc_get ingredients_text_en d) (doc_get_default ingredients_text d (PStr []))"

text \<open>
  The body of the loop over the records. A record is skipped (no row), processed to its
  end, or stopped by the \<open>TypeError\<close> of the splitter after its Product row. A code that
  passes the test is a string, so the last case is never reached.
\<close>

datatype outcome = Skipped | Processed | Raised exn

definition process_product ::
  "(char \<Rightarrow> string) \<Rightarrow> string set \<Rightarrow> product_doc \<Rightarrow> row list \<times> string set \<times> outcome" where
  "process_product tr written_ingredients d =
     (if rejected_code (doc_get code d) then ([], written_ingredients, Skipped)
      else
        (case doc_get code d of
           PStr product_code \<Rightarrow>
             let product_row = node_row product_code (choose_name d product_code) ''Product''
             in (case parse_ingredients_from_text tr (ingredients_text_of d) of
                   Inl e \<Rightarrow> ([product_row], written_ingredients, Raised e)
                 | Inr parsed_ingredient_names \<Rightarrow>
                     let (ing_rows, written1) =
                           ingredients_loop product_code written_ingredients parsed_ingredient_names;
                         (proxy_rows, written2) =
                           proxies_loop product_code parsed_ingredient_names written1
                             (explicit_product_allergens (doc_get_default allergens_tags d (PList [])));
                         trace_rows =
                           map (\<lambda>trace_allergen_name.
                                  rel_row ''MAY_CONTAIN_ALLERGEN'' product_code ''Product''
                                    trace_allergen_name ''Allergen'')
                             (processed_traces_allergens (doc_get_default traces_tags d (PList [])));
                         suitable_rows =
                           map (\<lambda>diet_name.
                                  rel_row ''IS_SUITABLE_FOR'' product_code ''Product''
                                    diet_name ''DietaryPreference'')
                             (suitable_diet_prefs_for_product
                                (product_dietary_labels (doc_get_default labels_tags d (PList []))))
                     in (product_row # ing_rows @ proxy_rows @ trace_rows @ suitable_rows,
                         written2, Processed))
         | other \<Rightarrow> ([], written_ingredients, Skipped)))"

section \<open>The engine: one run\<close>

text \<open>The two loops before the records: a node row for every name not yet in the set
  of written names. \<open>KNOWN_ALLERGENS\<close> is a set, and the order in which the first loop
  meets its members is not fixed by the source; the list order of the table stands for
  it here. Whatever the order, the loop writes the same rows, each once (lemma
  \<open>allergen_rows_any_order\<close>), and no statement about a run below depends on the order
  of the Allergen rows.\<close>

fun write_nodes_once :: "string \<Rightarrow> string set \<Rightarrow> string list \<Rightarrow> row list" where
  "write_nodes_once label written [] = []"
| "write_nodes_once label written (name # rest) =
     (if name \<notin> written
      then node_row name (PStr []) label # write_nodes_once label (insert name written) rest
      else write_nodes_once label written rest)"

definition preamble :: "row list" where
  "preamble =
     map PStr CSV_HEADER
       # write_nodes_once ''Allergen'' {} KNOWN_ALLERGENS
       @ write_nodes_once ''DietaryPreference'' {} (map fst DIETARY_PREFERENCES_MAP)"

record run_state =
  out :: "row list"
  written_ingredients :: "string set"
  processed_count :: nat
  missing_code_skipped :: nat

text \<open>The loop over the records the cursor yields. It ends with the last record or
  with the exception a record raises.\<close>

fun products_loop :: "(char \<Rightarrow> string) \<Rightarrow> run_state \<Rightarrow> product_doc list \<Rightarrow> run_state \<times> exn option" where
  "products_loop tr st [] = (st, None)"
| "products_loop tr st (d # ds) =
     (case process_product tr (written_ingredients st) d of
        (rows, written, Skipped) \<Rightarrow>
          products_loop tr (st\<lparr>missing_code_skipped := missing_code_skipped st + 1\<rparr>) ds
      | (rows, written, Processed) \<Rightarrow>
          products_loop tr
            (st\<lparr>out := out st @ rows, written_ingredients := written,
                 processed_count := processed_count st + 1\<rparr>) ds
      | (rows, written, Raised e) \<Rightarrow>
          (st\<lparr>out := out st @ rows, written_ingredients := written\<rparr>, Some e))"

definition initial_state :: run_state where
  "initial_state =
     \<lparr>out = preamble, written_ingredients = {}, processed_count = 0, missing_code_skipped = 0\<rparr>"

text \<open>
  The output stream is outside the program, and it is buffered: what a \<open>writerow\<close> hands
  over reaches the disk at some later write or when the \<open>with\<close> statement closes the
  file, so an I/O failure shows either at a \<open>writerow\<close> or at that close.
  \<open>can_open\<close> tells whether \<open>open\<close> succeeds; \<open>room = Some n\<close> is a stream of which \<open>n\<close>
  calls of \<open>writerow\<close> return and the next one raises \<open>IOError\<close>, \<open>room = None\<close> one of
  which every call returns; \<open>close_fails\<close> tells whether the close at the end of the
  \<open>with\<close> statement raises \<open>IOError\<close>. Between two writes the program only computes, so
  the rows handed over before a failing \<open>writerow\<close> are the first \<open>n\<close> of the rows the run
  writes.
\<close>

record sink =
  can_open :: bool
  room :: "nat option"
  close_fails :: bool

datatype level = INFO | WARNING | ERROR

text \<open>What a run leaves: \<open>file_rows\<close> are the rows that \<open>writerow\<close> took, in the order of
  the calls (\<open>None\<close> when the file was never opened), \<open>log_lines\<close> the entries of the log that
  tell how the run ended, \<open>raised\<close> the exception that leaves the function.\<close>

record run_result =
  file_rows :: "row list option"
  log_lines :: "(level \<times> string) list"
  raised :: "exn option"

text \<open>The two log calls that end the body of the \<open>with\<close> statement.\<close>

definition finished_log :: "run_state \<Rightarrow> (level \<times> string) list" where
  "finished_log st =
     (INFO, ''Finished generating TSV'')
       # (if missing_code_skipped st > 0
          then [(WARNING, ''Skipped products due to missing/invalid codes.'')] else [])"

text \<open>The end of the body of the \<open>with\<close> statement once every \<open>writerow\<close> of the loop has
  returned: the two log calls are reached when no record raised.\<close>

definition loop_end ::
  "run_state \<Rightarrow> exn option \<Rightarrow> row list \<times> (level \<times> string) list \<times> exn option" where
  "loop_end st e = (out st, (case e of None \<Rightarrow> finished_log st | Some x \<Rightarrow> []), e)"

text \<open>The body of the \<open>with\<close> statement: the rows that \<open>writerow\<close> took, the log, and the
  exception that ended the body, if any.\<close>

definition with_body ::
  "(char \<Rightarrow> string) \<Rightarrow> sink \<Rightarrow> product_doc list
     \<Rightarrow> row list \<times> (level \<times> string) list \<times> exn option" where
  "with_body tr snk docs =
     (case products_loop tr initial_state docs of
        (st, e) \<Rightarrow>
          (case room snk of
             Some n \<Rightarrow>
               if n < length (out st) then (take n (out st), [], Some IOError)
               else loop_end st e
           | None \<Rightarrow> loop_end st e))"

text \<open>The \<open>try\<close> block. The \<open>with\<close> statement closes the file however its body ended; an
  \<open>IOError\<close> of that close takes the place of the exception of the body.\<close>

definition try_block ::
  "(char \<Rightarrow> string) \<Rightarrow> sink \<Rightarrow> product_doc list
     \<Rightarrow> row list option \<times> (level \<times> string) list \<times> exn option" where
  "try_block tr snk docs =
     (if \<not> can_open snk then (None, [], Some IOError)
      else
        (case with_body tr snk docs of
           (rows, lg, e) \<Rightarrow> (Some rows, lg, (if close_fails snk then Some IOError else e))))"

text \<open>
  \<open>generate_csv_data\<close>: \<open>docs\<close> are the records of the collection that match the query
  (\<open>total_products\<close> is their number). Both \<open>except\<close> clauses log and fall through to
  the end of the function, so no exception leaves it.
\<close>

definition generate_csv_data :: "(char \<Rightarrow> string) \<Rightarrow> sink \<Rightarrow> product_doc list \<Rightarrow> run_result" where
  "generate_csv_data tr snk docs =
     (if length docs = 0
      then \<lparr>file_rows = None,
            log_lines = [(INFO, ''No products found matching the criteria. Exiting CSV generation.'')],
            raised = None\<rparr>
      else
        (case try_block tr snk docs of
           (f, lg, Some IOError) \<Rightarrow>
             \<lparr>file_rows = f, log_lines = lg @ [(ERROR, ''Error writing to TSV file'')], raised = None\<rparr>
         | (f, lg, Some TypeError) \<Rightarrow>
             \<lparr>file_rows = f,
              log_lines = lg @ [(ERROR, ''An unexpected error occurred during TSV generation'')],
              raised = None\<rparr>
         | (f, lg, None) \<Rightarrow> \<lparr>file_rows = f, log_lines = lg, raised = None\<rparr>))"


section \<open>Notions used in the proofs\<close>

text \<open>A text in which every white-space character is a single blank between two other
  characters or at an end.\<close>

fun spaces_single :: "string \<Rightarrow> bool" where
  "spaces_single [] = True"
| "spaces_single [c] = (is_space c \<longrightarrow> c = CHR '' '')"
| "spaces_single (c # d # cs) =
     ((is_space c \<longrightarrow> c = CHR '' '' \<and> \<not> is_space d) \<and> spaces_single (d # cs))"

text \<open>The kinds and identifiers of the Node rows of a list of rows, Product rows left
  out.\<close>

definition node_keys :: "row list \<Rightarrow> (pyval \<times> pyval) set" where
  "node_keys rows =
     {(row_label r, row_id r) | r.
        r \<in> set rows \<and> line_type r = PStr ''Node'' \<and> row_label r \<noteq> PStr ''Product''}"

text \<open>A list of rows in which, read from the start with the pairs \<open>seen\<close> already
  written, no pair gets a second Node row and every end of a Relationship row that is not
  a product has its Node row before it.\<close>

fun ordered_rows :: "(pyval \<times> pyval) set \<Rightarrow> row list \<Rightarrow> bool" where
  "ordered_rows seen [] = True"
| "ordered_rows seen (r # rs) =
     (if line_type r = PStr ''Node'' \<and> row_label r \<noteq> PStr ''Product''
      then (row_label r, row_id r) \<notin> seen \<and> ordered_rows (insert (row_label r, row_id r) seen) rs
      else (line_type r = PStr ''Relationship'' \<longrightarrow>
              (from_label r = PStr ''Product'' \<or> (from_label r, from_id r) \<in> seen) \<and>
              (to_label r = PStr ''Product'' \<or> (to_label r, to_id r) \<in> seen))
           \<and> ordered_rows seen rs)"

text \<open>The pairs written once the two fixed catalogs and the ingredients of a ledger are
  out.\<close>

definition ledger_keys :: "string set \<Rightarrow> (pyval \<times> pyval) set" where
  "ledger_keys w =
     (\<lambda>a. (PStr ''Allergen'', PStr a)) ` set KNOWN_ALLERGENS
     \<union> (\<lambda>p. (PStr ''DietaryPreference'', PStr p)) ` fst ` set DIETARY_PREFERENCES_MAP
     \<union> (\<lambda>x. (PStr ''Ingredient'', PStr x)) ` w"

text \<open>The characters the normalizer keeps.\<close>

definition kept_char :: "char \<Rightarrow> bool" where
  "kept_char c = (is_word c \<or> is_space c \<or> c = CHR ''-'')"

section \<open>Sample inputs\<close>

text \<open>A record with no field, to build examples from.\<close>

definition empty_doc :: product_doc where
  "empty_doc = \<lparr>code = None, product_name = None, product_name_en = None, generic_name = None,
     generic_name_en = None, ingredients_text = None, ingredients_text_en = None,
     allergens_tags = None, traces_tags = None, labels_tags = None\<rparr>"

text \<open>The record of the end-to-end example, with a dairy ingredient and a vegan label
  (written in upper case, with a blank), and a record whose tag fields repeat a tag.\<close>

definition vegan_milk_doc :: product_doc where
  "vegan_milk_doc = empty_doc\<lparr>code := Some (PStr ''123''), ingredients_text := Some (PStr ''milk''),
      labels_tags := Some (PList [PStr '' EN:Vegan''])\<rparr>"

definition repeated_tags_doc :: product_doc where
  "repeated_tags_doc = empty_doc\<lparr>code := Some (PStr ''9''),
      allergens_tags := Some (PList [PStr ''en:milk'', PStr ''EN:MILK'']),
      traces_tags := Some (PStr ''en:nuts, en:nuts''),
      labels_tags := Some (PList [PStr ''vegan'', PStr ''en:vegan''])\<rparr>"

text \<open>A record whose label field is one text with commas, and a record whose label
  field is a number.\<close>

definition labels_text_doc :: product_doc where
  "labels_text_doc = empty_doc\<lparr>code := Some (PStr ''124''),
      labels_tags := Some (PStr ''en:organic, EN:Vegan ,Vegetarian'')\<rparr>"

definition labels_number_doc :: product_doc where
  "labels_number_doc = empty_doc\<lparr>code := Some (PStr ''125''), labels_tags := Some (PInt 7)\<rparr>"

text \<open>A record with the one ingredient salt, and a record with the allergen tag for milk
  and no dairy ingredient.\<close>

definition salt_doc :: "string \<Rightarrow> product_doc" where
  "salt_doc c = empty_doc\<lparr>code := Some (PStr c), ingredients_text := Some (PStr ''salt'')\<rparr>"

definition milk_tag_doc :: product_doc where
  "milk_tag_doc = empty_doc\<lparr>code := Some (PStr ''7''), ingredients_text := Some (PStr ''salt''),
      allergens_tags := Some (PList [PStr ''en:milk''])\<rparr>"

definition milk_tag_cheese_doc :: product_doc where
  "milk_tag_cheese_doc = empty_doc\<lparr>code := Some (PStr ''8''), ingredients_text := Some (PStr ''cheese''),
      allergens_tags := Some (PList [PStr ''en:milk''])\<rparr>"

text \<open>A transliteration table with the one entry of the library's table that the
  examples need: the pound sign U+00A3 is transliterated as \<open>PS\<close>.\<close>

definition sample_table :: "char \<Rightarrow> string" where
  "sample_table c = (if c = CHR 0xA3 then ''PS'' else [])"

section \<open>Evaluation\<close>

text \<open>The character functions on the printable ASCII characters, as tables for the
  simplifier.\<close>

lemma is_word_ascii:
  "\<not> is_word CHR '' ''" "\<not> is_word CHR ''!''" "\<not> is_word CHR 0x22"
  "\<not> is_word CHR ''#''" "\<not> is_word CHR ''$''" "\<not> is_word CHR ''%''"
  "\<not> is_word CHR ''&''" "\<not> is_word CHR 0x27" "\<not> is_word CHR ''(''"
  "\<not> is_word CHR '')''" "\<not> is_word CHR ''*''" "\<not> is_word CHR ''+''"
  "\<not> is_word CHR '',''" "\<not> is_word CHR ''-''" "\<not> is_word CHR ''.''"
  "\<not> is_word CHR ''/''" "is_word CHR ''0''" "is_word CHR ''1''" "is_word CHR ''2''"
  "is_word CHR ''3''" "is_word CHR ''4''" "is_word CHR ''5''" "is_word CHR ''6''"
  "is_word CHR ''7''" "is_word CHR ''8''" "is_word CHR ''9''" "\<not> is_word CHR '':''"
  "\<not> is_word CHR '';''" "\<not> is_word CHR ''<''" "\<not> is_word CHR ''=''"
  "\<not> is_word CHR ''>''" "\<not> is_word CHR ''?''" "\<not> is_word CHR ''@''"
  "is_word CHR ''A''" "is_word CHR ''B''" "is_word CHR ''C''" "is_word CHR ''D''"
  "is_word CHR ''E''" "is_word CHR ''F''" "is_word CHR ''G''" "is_word CHR ''H''"
  "is_word CHR ''I''" "is_word CHR ''J''" "is_word CHR ''K''" "is_word CHR ''L''"
  "is_word CHR ''M''" "is_word CHR ''N''" "is_word CHR ''O''" "is_word CHR ''P''"
  "is_word CHR ''Q''" "is_word CHR ''R''" "is_word CHR ''S''" "is_word CHR ''T''"
  "is_word CHR ''U''" "is_word CHR ''V''" "is_word CHR ''W''" "is_word CHR ''X''"
  "is_word CHR ''Y''" "is_word CHR ''Z''" "\<not> is_word CHR ''[''" "\<not> is_word CHR 0x5C"
  "\<not> is_word CHR '']''" "\<not> is_word CHR ''^''" "is_word CHR ''_''"
  "\<not> is_word CHR 0x60" "is_word CHR ''a''" "is_word CHR ''b''" "is_word CHR ''c''"
  "is_word CHR ''d''" "is_word CHR ''e''" "is_word CHR ''f''" "is_word CHR ''g''"
  "is_word CHR ''h''" "is_word CHR ''i''" "is_word CHR ''j''" "is_word CHR ''k''"
  "is_word CHR ''l''" "is_word CHR ''m''" "is_word CHR ''n''" "is_word CHR ''o''"
  "is_word CHR ''p''" "is_word CHR ''q''" "is_word CHR ''r''" "is_word CHR ''s''"
  "is_word CHR ''t''" "is_word CHR ''u''" "is_word CHR ''v''" "is_word CHR ''w''"
  "is_word CHR ''x''" "is_word CHR ''y''" "is_word CHR ''z''" "\<not> is_word CHR ''{''"
  "\<not> is_word CHR ''|''" "\<not> is_word CHR ''}''" "\<not> is_word CHR ''~''"
  by (simp_all add: is_word_def code_point_def)

lemma is_space_ascii:
  "is_space CHR '' ''" "\<not> is_space CHR ''!''" "\<not> is_space CHR 0x22"
  "\<not> is_space CHR ''#''" "\<not> is_space CHR ''$''" "\<not> is_space CHR ''%''"
  "\<not> is_space CHR ''&''" "\<not> is_space CHR 0x27" "\<not> is_space CHR ''(''"
  "\<not> is_space CHR '')''" "\<not> is_space CHR ''*''" "\<not> is_space CHR ''+''"
  "\<not> is_space CHR '',''" "\<not> is_space CHR ''-''" "\<not> is_space CHR ''.''"
  "\<not> is_space CHR ''/''" "\<not> is_space CHR ''0''" "\<not> is_space CHR ''1''"
  "\<not> is_space CHR ''2''" "\<not> is_space CHR ''3''" "\<not> is_space CHR ''4''"
  "\<not> is_space CHR ''5''" "\<not> is_space CHR ''6''" "\<not> is_space CHR ''7''"
  "\<not> is_space CHR ''8''" "\<not> is_space CHR ''9''" "\<not> is_space CHR '':''"
  "\<not> is_space CHR '';''" "\<not> is_space CHR ''<''" "\<not> is_space CHR ''=''"
  "\<not> is_space CHR ''>''" "\<not> is_space CHR ''?''" "\<not> is_space CHR ''@''"
  "\<not> is_space CHR ''A''" "\<not> is_space CHR ''B''" "\<not> is_space CHR ''C''"
  "\<not> is_space CHR ''D''" "\<not> is_space CHR ''E''" "\<not> is_space CHR ''F''"
  "\<not> is_space CHR ''G''" "\<not> is_space CHR ''H''" "\<not> is_space CHR ''I''"
  "\<not> is_space CHR ''J''" "\<not> is_space CHR ''K''" "\<not> is_space CHR ''L''"
  "\<not> is_space CHR ''M''" "\<not> is_space CHR ''N''" "\<not> is_space CHR ''O''"
  "\<not> is_space CHR ''P''" "\<not> is_space CHR ''Q''" "\<not> is_space CHR ''R''"
  "\<not> is_space CHR ''S''" "\<not> is_space CHR ''T''" "\<not> is_space CHR ''U''"
  "\<not> is_space CHR ''V''" "\<not> is_space CHR ''W''" "\<not> is_space CHR ''X''"
  "\<not> is_space CHR ''Y''" "\<not> is_space CHR ''Z''" "\<not> is_space CHR ''[''"
  "\<not> is_space CHR 0x5C" "\<not> is_space CHR '']''" "\<not> is_space CHR ''^''"
  "\<not> is_space CHR ''_''" "\<not> is_space CHR 0x60" "\<not> is_space CHR ''a''"
  "\<not> is_space CHR ''b''" "\<not> is_space CHR ''c''" "\<not> is_space CHR ''d''"
  "\<not> is_space CHR ''e''" "\<not> is_space CHR ''f''" "\<not> is_space CHR ''g''"
  "\<not> is_space CHR ''h''" "\<not> is_space CHR ''i''" "\<not> is_space CHR ''j''"
  "\<not> is_space CHR ''k''" "\<not> is_space CHR ''l''" "\<not> is_space CHR ''m''"
  "\<not> is_space CHR ''n''" "\<not> is_space CHR ''o''" "\<not> is_space CHR ''p''"
  "\<not> is_space CHR ''q''" "\<not> is_space CHR ''r''" "\<not> is_space CHR ''s''"
  "\<not> is_space CHR ''t''" "\<not> is_space CHR ''u''" "\<not> is_space CHR ''v''"
  "\<not> is_space CHR ''w''" "\<not> is_space CHR ''x''" "\<not> is_space CHR ''y''"
  "\<not> is_space CHR ''z''" "\<not> is_space CHR ''{''" "\<not> is_space CHR ''|''"
  "\<not> is_space CHR ''}''" "\<not> is_space CHR ''~''"
  by (simp_all add: is_space_def code_point_def)

lemma is_digit_ascii:
  "\<not> is_digit CHR '' ''" "\<not> is_digit CHR ''!''" "\<not> is_digit CHR 0x22"
  "\<not> is_digit CHR ''#''" "\<not> is_digit CHR ''$''" "\<not> is_digit CHR ''%''"
  "\<not> is_digit CHR ''&''" "\<not> is_digit CHR 0x27" "\<not> is_digit CHR ''(''"
  "\<not> is_digit CHR '')''" "\<not> is_digit CHR ''*''" "\<not> is_digit CHR ''+''"
  "\<not> is_digit CHR '',''" "\<not> is_digit CHR ''-''" "\<not> is_digit CHR ''.''"
  "\<not> is_digit CHR ''/''" "is_digit CHR ''0''" "is_digit CHR ''1''" "is_digit CHR ''2''"
  "is_digit CHR ''3''" "is_digit CHR ''4''" "is_digit CHR ''5''" "is_digit CHR ''6''"
  "is_digit CHR ''7''" "is_digit CHR ''8''" "is_digit CHR ''9''" "\<not> is_digit CHR '':''"
  "\<not> is_digit CHR '';''" "\<not> is_digit CHR ''<''" "\<not> is_digit CHR ''=''"
  "\<not> is_digit CHR ''>''" "\<not> is_digit CHR ''?''" "\<not> is_digit CHR ''@''"
  "\<not> is_digit CHR ''A''" "\<not> is_digit CHR ''B''" "\<not> is_digit CHR ''C''"
  "\<not> is_digit CHR ''D''" "\<not> is_digit CHR ''E''" "\<not> is_digit CHR ''F''"
  "\<not> is_digit CHR ''G''" "\<not> is_digit CHR ''H''" "\<not> is_digit CHR ''I''"
  "\<not> is_digit CHR ''J''" "\<not> is_digit CHR ''K''" "\<not> is_digit CHR ''L''"
  "\<not> is_digit CHR ''M''" "\<not> is_digit CHR ''N''" "\<not> is_digit CHR ''O''"
  "\<not> is_digit CHR ''P''" "\<not> is_digit CHR ''Q''" "\<not> is_digit CHR ''R''"
  "\<not> is_digit CHR ''S''" "\<not> is_digit CHR ''T''" "\<not> is_digit CHR ''U''"
  "\<not> is_digit CHR ''V''" "\<not> is_digit CHR ''W''" "\<not> is_digit CHR ''X''"
  "\<not> is_digit CHR ''Y''" "\<not> is_digit CHR ''Z''" "\<not> is_digit CHR ''[''"
  "\<not> is_digit CHR 0x5C" "\<not> is_digit CHR '']''" "\<not> is_digit CHR ''^''"
  "\<not> is_digit CHR ''_''" "\<not> is_digit CHR 0x60" "\<not> is_digit CHR ''a''"
  "\<not> is_digit CHR ''b''" "\<not> is_digit CHR ''c''" "\<not> is_digit CHR ''d''"
  "\<not> is_digit CHR ''e''" "\<not> is_digit CHR ''f''" "\<not> is_digit CHR ''g''"
  "\<not> is_digit CHR ''h''" "\<not> is_digit CHR ''i''" "\<not> is_digit CHR ''j''"
  "\<not> is_digit CHR ''k''" "\<not> is_digit CHR ''l''" "\<not> is_digit CHR ''m''"
  "\<not> is_digit CHR ''n''" "\<not> is_digit CHR ''o''" "\<not> is_digit CHR ''p''"
  "\<not> is_digit CHR ''q''" "\<not> is_digit CHR ''r''" "\<not> is_digit CHR ''s''"
  "\<not> is_digit CHR ''t''" "\<not> is_digit CHR ''u''" "\<not> is_digit CHR ''v''"
  "\<not> is_digit CHR ''w''" "\<not> is_digit CHR ''x''" "\<not> is_digit CHR ''y''"
  "\<not> is_digit CHR ''z''" "\<not> is_digit CHR ''{''" "\<not> is_digit CHR ''|''"
  "\<not> is_digit CHR ''}''" "\<not> is_digit CHR ''~''"
  by (simp_all add: is_digit_def code_point_def)

lemma is_ascii_ascii:
  "is_ascii CHR '' ''" "is_ascii CHR ''!''" "is_ascii CHR 0x22" "is_ascii CHR ''#''"
  "is_ascii CHR ''$''" "is_ascii CHR ''%''" "is_ascii CHR ''&''" "is_ascii CHR 0x27"
  "is_ascii CHR ''(''" "is_ascii CHR '')''" "is_ascii CHR ''*''" "is_ascii CHR ''+''"
  "is_ascii CHR '',''" "is_ascii CHR ''-''" "is_ascii CHR ''.''" "is_ascii CHR ''/''"
  "is_ascii CHR ''0''" "is_ascii CHR ''1''" "is_ascii CHR ''2''" "is_ascii CHR ''3''"
  "is_ascii CHR ''4''" "is_ascii CHR ''5''" "is_ascii CHR ''6''" "is_ascii CHR ''7''"
  "is_ascii CHR ''8''" "is_ascii CHR ''9''" "is_ascii CHR '':''" "is_ascii CHR '';''"
  "is_ascii CHR ''<''" "is_ascii CHR ''=''" "is_ascii CHR ''>''" "is_ascii CHR ''?''"
  "is_ascii CHR ''@''" "is_ascii CHR ''A''" "is_ascii CHR ''B''" "is_ascii CHR ''C''"
  "is_ascii CHR ''D''" "is_ascii CHR ''E''" "is_ascii CHR ''F''" "is_ascii CHR ''G''"
  "is_ascii CHR ''H''" "is_ascii CHR ''I''" "is_ascii CHR ''J''" "is_ascii CHR ''K''"
  "is_ascii CHR ''L''" "is_ascii CHR ''M''" "is_ascii CHR ''N''" "is_ascii CHR ''O''"
  "is_ascii CHR ''P''" "is_ascii CHR ''Q''" "is_ascii CHR ''R''" "is_ascii CHR ''S''"
  "is_ascii CHR ''T''" "is_ascii CHR ''U''" "is_ascii CHR ''V''" "is_ascii CHR ''W''"
  "is_ascii CHR ''X''" "is_ascii CHR ''Y''" "is_ascii CHR ''Z''" "is_ascii CHR ''[''"
  "is_ascii CHR 0x5C" "is_ascii CHR '']''" "is_ascii CHR ''^''" "is_ascii CHR ''_''"
  "is_ascii CHR 0x60" "is_ascii CHR ''a''" "is_ascii CHR ''b''" "is_ascii CHR ''c''"
  "is_ascii CHR ''d''" "is_ascii CHR ''e''" "is_ascii CHR ''f''" "is_ascii CHR ''g''"
  "is_ascii CHR ''h''" "is_ascii CHR ''i''" "is_ascii CHR ''j''" "is_ascii CHR ''k''"
  "is_ascii CHR ''l''" "is_ascii CHR ''m''" "is_ascii CHR ''n''" "is_ascii CHR ''o''"
  "is_ascii CHR ''p''" "is_ascii CHR ''q''" "is_ascii CHR ''r''" "is_ascii CHR ''s''"
  "is_ascii CHR ''t''" "is_ascii CHR ''u''" "is_ascii CHR ''v''" "is_ascii CHR ''w''"
  "is_ascii CHR ''x''" "is_ascii CHR ''y''" "is_ascii CHR ''z''" "is_ascii CHR ''{''"
  "is_ascii CHR ''|''" "is_ascii CHR ''}''" "is_ascii CHR ''~''"
  by (simp_all add: is_ascii_def code_point_def)

lemma lower_char_ascii:
  "lower_char CHR '' '' = CHR '' ''" "lower_char CHR ''!'' = CHR ''!''"
  "lower_char CHR 0x22 = CHR 0x22" "lower_char CHR ''#'' = CHR ''#''"
  "lower_char CHR ''$'' = CHR ''$''" "lower_char CHR ''%'' = CHR ''%''"
  "lower_char CHR ''&'' = CHR ''&''" "lower_char CHR 0x27 = CHR 0x27"
  "lower_char CHR ''('' = CHR ''(''" "lower_char CHR '')'' = CHR '')''"
  "lower_char CHR ''*'' = CHR ''*''" "lower_char CHR ''+'' = CHR ''+''"
  "lower_char CHR '','' = CHR '',''" "lower_char CHR ''-'' = CHR ''-''"
  "lower_char CHR ''.'' = CHR ''.''" "lower_char CHR ''/'' = CHR ''/''"
  "lower_char CHR ''0'' = CHR ''0''" "lower_char CHR ''1'' = CHR ''1''"
  "lower_char CHR ''2'' = CHR ''2''" "lower_char CHR ''3'' = CHR ''3''"
  "lower_char CHR ''4'' = CHR ''4''" "lower_char CHR ''5'' = CHR ''5''"
  "lower_char CHR ''6'' = CHR ''6''" "lower_char CHR ''7'' = CHR ''7''"
  "lower_char CHR ''8'' = CHR ''8''" "lower_char CHR ''9'' = CHR ''9''"
  "lower_char CHR '':'' = CHR '':''" "lower_char CHR '';'' = CHR '';''"
  "lower_char CHR ''<'' = CHR ''<''" "lower_char CHR ''='' = CHR ''=''"
  "lower_char CHR ''>'' = CHR ''>''" "lower_char CHR ''?'' = CHR ''?''"
  "lower_char CHR ''@'' = CHR ''@''" "lower_char CHR ''A'' = CHR ''a''"
  "lower_char CHR ''B'' = CHR ''b''" "lower_char CHR ''C'' = CHR ''c''"
  "lower_char CHR ''D'' = CHR ''d''" "lower_char CHR ''E'' = CHR ''e''"
  "lower_char CHR ''F'' = CHR ''f''" "lower_char CHR ''G'' = CHR ''g''"
  "lower_char CHR ''H'' = CHR ''h''" "lower_char CHR ''I'' = CHR ''i''"
  "lower_char CHR ''J'' = CHR ''j''" "lower_char CHR ''K'' = CHR ''k''"
  "lower_char CHR ''L'' = CHR ''l''" "lower_char CHR ''M'' = CHR ''m''"
  "lower_char CHR ''N'' = CHR ''n''" "lower_char CHR ''O'' = CHR ''o''"
  "lower_char CHR ''P'' = CHR ''p''" "lower_char CHR ''Q'' = CHR ''q''"
  "lower_char CHR ''R'' = CHR ''r''" "lower_char CHR ''S'' = CHR ''s''"
  "lower_char CHR ''T'' = CHR ''t''" "lower_char CHR ''U'' = CHR ''u''"
  "lower_char CHR ''V'' = CHR ''v''" "lower_char CHR ''W'' = CHR ''w''"
  "lower_char CHR ''X'' = CHR ''x''" "lower_char CHR ''Y'' = CHR ''y''"
  "lower_char CHR ''Z'' = CHR ''z''" "lower_char CHR ''['' = CHR ''[''"
  "lower_char CHR 0x5C = CHR 0x5C" "lower_char CHR '']'' = CHR '']''"
  "lower_char CHR ''^'' = CHR ''^''" "lower_char CHR ''_'' = CHR ''_''"
  "lower_char CHR 0x60 = CHR 0x60" "lower_char CHR ''a'' = CHR ''a''"
  "lower_char CHR ''b'' = CHR ''b''" "lower_char CHR ''c'' = CHR ''c''"
  "lower_char CHR ''d'' = CHR ''d''" "lower_char CHR ''e'' = CHR ''e''"
  "lower_char CHR ''f'' = CHR ''f''" "lower_char CHR ''g'' = CHR ''g''"
  "lower_char CHR ''h'' = CHR ''h''" "lower_char CHR ''i'' = CHR ''i''"
  "lower_char CHR ''j'' = CHR ''j''" "lower_char CHR ''k'' = CHR ''k''"
  "lower_char CHR ''l'' = CHR ''l''" "lower_char CHR ''m'' = CHR ''m''"
  "lower_char CHR ''n'' = CHR ''n''" "lower_char CHR ''o'' = CHR ''o''"
  "lower_char CHR ''p'' = CHR ''p''" "lower_char CHR ''q'' = CHR ''q''"
  "lower_char CHR ''r'' = CHR ''r''" "lower_char CHR ''s'' = CHR ''s''"
  "lower_char CHR ''t'' = CHR ''t''" "lower_char CHR ''u'' = CHR ''u''"
  "lower_char CHR ''v'' = CHR ''v''" "lower_char CHR ''w'' = CHR ''w''"
  "lower_char CHR ''x'' = CHR ''x''" "lower_char CHR ''y'' = CHR ''y''"
  "lower_char CHR ''z'' = CHR ''z''" "lower_char CHR ''{'' = CHR ''{''"
  "lower_char CHR ''|'' = CHR ''|''" "lower_char CHR ''}'' = CHR ''}''"
  "lower_char CHR ''~'' = CHR ''~''"
  by (simp_all add: lower_char_def code_point_def char_of_eq_iff)

lemmas text_eval =
  re_split_def re_sub_def sub_from.simps split_from.simps first_match_def Cat_def strip_def lower_def unidecode_def
  first_piece_def set_add_def chr_eq_def newline_def
  is_space_ascii is_word_ascii is_digit_ascii is_ascii_ascii lower_char_ascii

lemmas parse_eval =
  parse_ingredients_from_text_def add_item_def clean_item_def normalize_ingredient_name_def
  COMMA_OUTSIDE_PARENS_def PERCENT_IN_PARENS_def PERCENT_BARE_def BRACKETED_def
  NOT_WORD_SPACE_HYPHEN_def SPACES_def text_eval

text \<open>A keyword pattern at one position: the literal is tried first, then the two word
  boundaries.\<close>

lemma lit_match_cases: "lit_match ic w p s = [] \<or> (\<exists>x. lit_match ic w p s = [x])"
  by (induction ic w p s rule: lit_match.induct) auto

lemma rmatch_Seq_WordB:
  "rmatch ic (Seq WordB r) p s = (if word_before p \<noteq> word_after s then rmatch ic r p s else [])"
  by simp

lemma rmatch_Seq_Lit:
  "rmatch ic (Seq (Lit w) r) p s =
     (case lit_match ic w p s of [] \<Rightarrow> [] | x # xs \<Rightarrow> rmatch ic r (fst x) (snd x))"
  using lit_match_cases [of ic w p s] by auto

lemma rmatch_Seq_Opt_Lit:
  "rmatch ic (Seq (Opt (Lit t)) r) p s =
     (case lit_match ic t p s of [] \<Rightarrow> [] | x # xs \<Rightarrow> rmatch ic r (fst x) (snd x)) @ rmatch ic r p s"
  using lit_match_cases [of ic t p s] by auto

lemma rmatch_WordB_Eps:
  "rmatch ic (Seq WordB Eps) p s = (if word_before p \<noteq> word_after s then [(p, s)] else [])"
  by simp

lemma kw_unfold: "kw w = Seq WordB (Seq (Lit w) (Seq WordB Eps))"
  by (simp add: kw_def Cat_def)

lemma kw_opt_unfold: "kw_opt w t = Seq WordB (Seq (Lit w) (Seq (Opt (Lit t)) (Seq WordB Eps)))"
  by (simp add: kw_opt_def Cat_def)

lemma rmatch_kw:
  "rmatch ic (kw w) p s =
     (case lit_match ic w p s of
        [] \<Rightarrow> []
      | x # xs \<Rightarrow> if word_before p \<noteq> word_after s \<and> word_before (fst x) \<noteq> word_after (snd x)
                  then [x] else [])"
  unfolding kw_unfold rmatch_Seq_WordB rmatch_Seq_Lit rmatch_WordB_Eps
  by (simp split: list.splits)

lemma rmatch_kw_opt:
  "rmatch ic (kw_opt w t) p s =
     (case lit_match ic w p s of
        [] \<Rightarrow> []
      | x # xs \<Rightarrow>
          if word_before p \<noteq> word_after s
          then (case lit_match ic t (fst x) (snd x) of
                  [] \<Rightarrow> []
                | y # ys \<Rightarrow> if word_before (fst y) \<noteq> word_after (snd y) then [y] else [])
               @ (if word_before (fst x) \<noteq> word_after (snd x) then [x] else [])
          else [])"
  unfolding kw_opt_unfold rmatch_Seq_WordB rmatch_Seq_Lit rmatch_Seq_Opt_Lit rmatch_WordB_Eps
  by (simp split: list.splits)

lemmas kw_eval =
  rmatch_kw rmatch_kw_opt re_search_def chr_eq_def word_before_def word_after_def
  is_word_ascii lower_char_ascii

lemmas table_eval =
  INGREDIENT_TO_ALLERGEN_MAP_def KNOWN_ALLERGENS_def DIETARY_CONFLICT_MAP_def
  DIETARY_PREFERENCES_MAP_def E22x_def code_point_def Cat_def kw_eval

lemmas record_eval =
  process_product_def rejected_code_def choose_name_def py_or_def doc_get_def doc_get_default_def
  explicit_product_allergens_def processed_traces_allergens_def product_dietary_labels_def
  suitable_diet_prefs_for_product_def tags_as_list_def add_known_def add_label_def clean_tag_def
  ingredients_text_of_def empty_doc_def

section \<open>The splitter on the examples of the specification\<close>

lemma nested_example_split:
  "re_split COMMA_OUTSIDE_PARENS ''water, flavour (contains: sulphites, 2%)''
     = [''water'', ''flavour (contains: sulphites, 2%)'']"
  by (simp add: COMMA_OUTSIDE_PARENS_def text_eval)

lemma nested_example_item:
  "clean_item ''flavour (contains: sulphites, 2%)'' = ''flavour (contains''"
  by (simp add: clean_item_def PERCENT_IN_PARENS_def PERCENT_BARE_def text_eval)

text \<open>
  C1. The text \<open>water, flavour (contains: sulphites, 2%)\<close> is cut at the first comma
  only, so there are two fragments. The second fragment is then cut at its colon, which
  leaves \<open>flavour (contains\<close> with the bracket open; the normalizer finds no closed
  bracket to drop and only deletes the \<open>(\<close>. The function returns the names \<open>water\<close> and
  \<open>flavour contains\<close>, not \<open>water\<close> and \<open>flavour\<close>.
\<close>

theorem C1_nested_example_result:
  "parse_ingredients_from_text tr (PStr ''water, flavour (contains: sulphites, 2%)'')
     = Inr [''water'', ''flavour contains'']"
  by (simp add: parse_eval)

text \<open>
  C2. For the fragment \<open>en:water\<close> the function keeps the text before the colon and drops
  the text after it: the result is the name \<open>en\<close>, and \<open>water\<close> is lost.
\<close>

theorem C2_language_prefix_result:
  "parse_ingredients_from_text tr (PStr ''en:water'') = Inr [''en'']"
  by (simp add: parse_eval)

section \<open>Relationship rows of one ingredient\<close>

lemma allergen_rows_wheat_flour:
  "allergen_rows ''wheat flour'' =
     [rel_row ''IS_ALLERGEN'' ''wheat flour'' ''Ingredient'' ''en:gluten'' ''Allergen'',
      rel_row ''IS_ALLERGEN'' ''wheat flour'' ''Ingredient'' ''en:gluten'' ''Allergen'']"
  by (simp add: allergen_rows_def table_eval)

lemma conflict_rows_wheat_flour:
  "conflict_rows ''wheat flour'' =
     [rel_row ''CONFLICTS_WITH_DIET'' ''wheat flour'' ''Ingredient'' ''gluten_free'' ''DietaryPreference'']"
  by (simp add: conflict_rows_def is_conflicting_ingredient_def table_eval)

text \<open>
  C3. A record with the one ingredient \<open>wheat flour\<close>: the patterns for \<open>wheat\<close> and for
  \<open>flour\<close> are both found and both map to \<open>en:gluten\<close>, and the loop over the keyword
  table writes a row for each, so the \<open>IS_ALLERGEN\<close> row from \<open>wheat flour\<close> to
  \<open>en:gluten\<close> is written twice. The \<open>CONFLICTS_WITH_DIET\<close> row, whose loop stops at the
  first pattern found, is written once.
\<close>

theorem C3_wheat_flour_rows:
  "fst (process_product tr {}
          (empty_doc\<lparr>code := Some (PStr ''1''), ingredients_text := Some (PStr ''wheat flour'')\<rparr>)) =
     [node_row ''1'' (PStr ''Product 1'') ''Product'',
      node_row ''wheat flour'' (PStr []) ''Ingredient'',
      rel_row ''HAS_INGREDIENT'' ''1'' ''Product'' ''wheat flour'' ''Ingredient'',
      rel_row ''IS_ALLERGEN'' ''wheat flour'' ''Ingredient'' ''en:gluten'' ''Allergen'',
      rel_row ''IS_ALLERGEN'' ''wheat flour'' ''Ingredient'' ''en:gluten'' ''Allergen'',
      rel_row ''CONFLICTS_WITH_DIET'' ''wheat flour'' ''Ingredient'' ''gluten_free'' ''DietaryPreference'']"
  by (simp add: record_eval parse_eval allergen_rows_wheat_flour conflict_rows_wheat_flour
      DIETARY_PREFERENCES_MAP_def)

section \<open>Rejected records\<close>

lemma all_dropWhile_iff: "(\<forall>x\<in>set (dropWhile P s). P x) \<longleftrightarrow> (\<forall>x\<in>set s. P x)"
  by (induction s) auto

lemma strip_empty_iff: "strip s = [] \<longleftrightarrow> (\<forall>c\<in>set s. is_space c)"
  by (simp add: strip_def dropWhile_eq_Nil_conv all_dropWhile_iff)

lemma process_product_rejected:
  assumes "rejected_code (doc_get code d)"
  shows "process_product tr w d = ([], w, Skipped)"
  using assms by (auto simp: process_product_def split: pyval.splits)

text \<open>
  C7. A record whose product code is absent, null, empty or made of white space only, or
  not a string, writes no row and leaves the ledger as it was; the loop counts it in
  \<open>missing_code_skipped\<close> and goes on with the records that follow.
\<close>

theorem C7_rejected_record:
  assumes "code d = None \<or> code d = Some PNone
           \<or> (\<exists>s. code d = Some (PStr s) \<and> (\<forall>c\<in>set s. is_space c))
           \<or> (\<exists>v. code d = Some v \<and> (\<forall>s. v \<noteq> PStr s))"
  shows "process_product tr w d = ([], w, Skipped)
         \<and> products_loop tr st (d # ds)
             = products_loop tr (st\<lparr>missing_code_skipped := missing_code_skipped st + 1\<rparr>) ds"
proof -
  have "rejected_code (doc_get code d)"
    using assms
    by (auto simp: rejected_code_def doc_get_def doc_get_default_def strip_empty_iff
             split: pyval.splits option.splits)
  then have "process_product tr w d = ([], w, Skipped)" for w
    by (rule process_product_rejected)
  then show ?thesis by simp
qed

theorem C7_rejected_record_witness:
  "products_loop sample_table initial_state
     [empty_doc\<lparr>code := Some (PStr ''  '')\<rparr>, empty_doc\<lparr>code := Some (PInt 5)\<rparr>, empty_doc]
   = (initial_state\<lparr>missing_code_skipped := 3\<rparr>, None)"
proof -
  let ?blank = "empty_doc\<lparr>code := Some (PStr ''  '')\<rparr>"
  let ?number = "empty_doc\<lparr>code := Some (PInt 5)\<rparr>"
  have blank: "code ?blank = None \<or> code ?blank = Some PNone
       \<or> (\<exists>s. code ?blank = Some (PStr s) \<and> (\<forall>c\<in>set s. is_space c))
       \<or> (\<exists>v. code ?blank = Some v \<and> (\<forall>s. v \<noteq> PStr s))"
    by (simp add: is_space_ascii)
  have number: "code ?number = None \<or> code ?number = Some PNone
       \<or> (\<exists>s. code ?number = Some (PStr s) \<and> (\<forall>c\<in>set s. is_space c))
       \<or> (\<exists>v. code ?number = Some v \<and> (\<forall>s. v \<noteq> PStr s))"
    by simp
  have absent: "code empty_doc = None \<or> code empty_doc = Some PNone
       \<or> (\<exists>s. code empty_doc = Some (PStr s) \<and> (\<forall>c\<in>set s. is_space c))
       \<or> (\<exists>v. code empty_doc = Some v \<and> (\<forall>s. v \<noteq> PStr s))"
    by (simp add: empty_doc_def)
  show ?thesis
    by (simp add: C7_rejected_record [OF blank] C7_rejected_record [OF number]
        C7_rejected_record [OF absent] initial_state_def)
qed

section \<open>The first rows of a run\<close>

lemma products_loop_out_prefix:
  "\<exists>more. out (fst (products_loop tr st docs)) = out st @ more"
proof (induction docs arbitrary: st)
  case Nil
  then show ?case by simp
next
  case (Cons d ds)
  obtain rows w oc where p: "process_product tr (written_ingredients st) d = (rows, w, oc)"
    by (cases "process_product tr (written_ingredients st) d") auto
  show ?case
  proof (cases oc)
    case Skipped
    with p Cons.IH [of "st\<lparr>missing_code_skipped := missing_code_skipped st + 1\<rparr>"] show ?thesis by simp
  next
    case Processed
    with p Cons.IH [of "st\<lparr>out := out st @ rows, written_ingredients := w,
                 processed_count := processed_count st + 1\<rparr>"] show ?thesis by auto
  next
    case (Raised e)
    with p show ?thesis by simp
  qed
qed



section \<open>Rows\<close>

lemma rel_row_eq [simp]:
  "rel_row t f fl x xl = rel_row t' f' fl' x' xl' \<longleftrightarrow> t = t' \<and> f = f' \<and> fl = fl' \<and> x = x' \<and> xl = xl'"
  by (auto simp: rel_row_def)

lemma node_row_eq [simp]:
  "node_row i n l = node_row i' n' l' \<longleftrightarrow> i = i' \<and> n = n' \<and> l = l'"
  by (auto simp: node_row_def)

lemma node_row_neq_rel_row [simp]:
  "node_row i n l \<noteq> rel_row t f fl x xl" "rel_row t f fl x xl \<noteq> node_row i n l"
  by (auto simp: node_row_def rel_row_def)

lemma cells_rel_row [simp]:
  "line_type (rel_row t f fl x xl) = PStr ''Relationship''"
  "row_id (rel_row t f fl x xl) = PStr []"
  "row_label (rel_row t f fl x xl) = PStr []"
  "rel_type (rel_row t f fl x xl) = PStr t"
  "from_id (rel_row t f fl x xl) = PStr f"
  "from_label (rel_row t f fl x xl) = PStr fl"
  "to_id (rel_row t f fl x xl) = PStr x"
  "to_label (rel_row t f fl x xl) = PStr xl"
  by (simp_all add: rel_row_def cell_def line_type_def row_id_def row_label_def rel_type_def
      from_id_def from_label_def to_id_def to_label_def)

lemma cells_node_row [simp]:
  "line_type (node_row i n l) = PStr ''Node''"
  "row_id (node_row i n l) = PStr i"
  "row_label (node_row i n l) = PStr l"
  "rel_type (node_row i n l) = PStr []"
  by (simp_all add: node_row_def cell_def line_type_def row_id_def row_label_def rel_type_def)

section \<open>The alphabet of a normalized name\<close>

lemma rmatch_suffix:
  "(p', s') \<in> set (rmatch ic r p s) \<Longrightarrow> \<exists>pre. s = pre @ s'"
proof (induction r arbitrary: p s p' s')
  case (Lit w)
  have "(p', s') \<in> set (lit_match ic w p s) \<Longrightarrow> \<exists>pre. s = pre @ s'" for w p s
    by (induction ic w p s rule: lit_match.induct) (auto split: if_splits)
  with Lit show ?case by simp
next
  case (Star P)
  have "(p', s') \<in> set (star_greedy P p s) \<Longrightarrow> \<exists>pre. s = pre @ s'" for p s
    by (induction P p s rule: star_greedy.induct) (auto split: if_splits intro: Cons_eq_appendI)
  with Star show ?case by simp
next
  case (Plus P)
  have "(p', s') \<in> set (star_greedy P p s) \<Longrightarrow> \<exists>pre. s = pre @ s'" for p s
    by (induction P p s rule: star_greedy.induct) (auto split: if_splits intro: Cons_eq_appendI)
  with Plus show ?case by (auto split: list.splits if_splits intro: Cons_eq_appendI)
next
  case (LazyStar P)
  have "(p', s') \<in> set (star_lazy P p s) \<Longrightarrow> \<exists>pre. s = pre @ s'" for p s
    by (induction P p s rule: star_lazy.induct) (auto split: if_splits intro: Cons_eq_appendI)
  with LazyStar show ?case by simp
next
  case (Seq a b)
  from Seq.prems obtain p1 s1 where 1: "(p1, s1) \<in> set (rmatch ic a p s)"
    and 2: "(p', s') \<in> set (rmatch ic b p1 s1)" by auto
  from Seq.IH(1) [OF 1] Seq.IH(2) [OF 2] show ?case by auto
qed (auto split: list.splits if_splits)

lemma first_match_suffix:
  "first_match ic r p s = Some (p', s') \<Longrightarrow> \<exists>pre. s = pre @ s'"
  using rmatch_suffix [of p' s' ic r p s]
  by (auto simp: first_match_def split: list.splits if_splits)

lemma first_match_shorter:
  "first_match ic r p s = Some (p', s') \<Longrightarrow> length s' < length s"
  by (auto simp: first_match_def split: list.splits if_splits)

lemma set_sub_from_delete: "set (sub_from r [] p s) \<subseteq> set s"
proof (induction "length s" arbitrary: s p rule: less_induct)
  case less
  show ?case
  proof (cases "first_match False r p s")
    case None
    show ?thesis
    proof (cases s)
      case Nil
      with None show ?thesis by (subst sub_from.simps) simp
    next
      case (Cons c cs)
      with less [of cs "Some c"] None show ?thesis
        by (subst sub_from.simps) auto
    qed
  next
    case (Some m)
    obtain p' s' where m: "m = (p', s')" by (cases m)
    from first_match_suffix Some m obtain pre where pre: "s = pre @ s'" by blast
    from first_match_shorter Some m have "length s' < length s" by blast
    from less [OF this, of p'] pre Some m show ?thesis
      by (subst sub_from.simps) auto
  qed
qed

lemma sub_from_Cls: "sub_from (Cls P) [] p s = filter (\<lambda>c. \<not> P c) s"
proof (induction s arbitrary: p)
  case Nil
  show ?case by (subst sub_from.simps) (simp add: first_match_def)
next
  case (Cons c cs)
  show ?case by (subst sub_from.simps) (simp add: first_match_def Cons)
qed


section \<open>White space\<close>

lemma star_greedy_hd:
  "star_greedy P p s \<noteq> [] \<and> snd (hd (star_greedy P p s)) = dropWhile P s"
  by (induction P p s rule: star_greedy.induct) auto

lemma first_match_SPACES_Cons:
  "first_match False SPACES p (c # cs) =
     (if is_space c then Some (fst (hd (star_greedy is_space (Some c) cs)), dropWhile is_space cs)
      else None)"
proof (cases "is_space c")
  case False
  then show ?thesis by (simp add: first_match_def SPACES_def)
next
  case True
  obtain x xs where x: "star_greedy is_space (Some c) cs = x # xs"
    using star_greedy_hd [of is_space "Some c" cs] by (cases "star_greedy is_space (Some c) cs") auto
  with star_greedy_hd [of is_space "Some c" cs] have "snd x = dropWhile is_space cs" by simp
  moreover have "length (dropWhile is_space cs) < Suc (length cs)"
    using length_dropWhile_le [of is_space cs] by simp
  ultimately show ?thesis using True x
    by (cases x) (simp add: first_match_def SPACES_def)
qed

lemma sub_from_SPACES_Nil [simp]: "sub_from SPACES rep p [] = []"
  by (subst sub_from.simps) (simp add: first_match_def SPACES_def)

lemma sub_from_SPACES_space:
  "is_space c \<Longrightarrow> \<exists>p'. sub_from SPACES rep p (c # cs) = rep @ sub_from SPACES rep p' (dropWhile is_space cs)"
  by (subst sub_from.simps) (simp add: first_match_SPACES_Cons, blast)

lemma sub_from_SPACES_other:
  "\<not> is_space c \<Longrightarrow> sub_from SPACES rep p (c # cs) = c # sub_from SPACES rep (Some c) cs"
  by (subst sub_from.simps) (simp add: first_match_SPACES_Cons)

lemma spaces_single_Cons_other:
  "\<not> is_space c \<Longrightarrow> spaces_single (c # t) = spaces_single t"
  by (cases t) auto

lemma spaces_single_sub_from: "spaces_single (sub_from SPACES '' '' p s)"
proof (induction "length s" arbitrary: s p rule: less_induct)
  case less
  show ?case
  proof (cases s)
    case Nil
    then show ?thesis by simp
  next
    case (Cons c cs)
    show ?thesis
    proof (cases "is_space c")
      case False
      with less [of cs "Some c"] Cons show ?thesis
        by (simp add: sub_from_SPACES_other spaces_single_Cons_other)
    next
      case True
      then obtain p' where r: "sub_from SPACES '' '' p (c # cs) = '' '' @ sub_from SPACES '' '' p' (dropWhile is_space cs)"
        using sub_from_SPACES_space by blast
      have len: "length (dropWhile is_space cs) < length s"
        using length_dropWhile_le [of is_space cs] Cons by simp
      show ?thesis
      proof (cases "dropWhile is_space cs")
        case Nil
        with r Cons show ?thesis by simp
      next
        case (Cons d ds)
        then have d: "\<not> is_space d" using hd_dropWhile [of is_space cs] by auto
        from less [OF len, of p'] Cons d
        have "spaces_single (d # sub_from SPACES '' '' (Some d) ds)"
          by (simp add: sub_from_SPACES_other)
        with r Cons d \<open>s = c # cs\<close> show ?thesis
          by (simp add: sub_from_SPACES_other)
      qed
    qed
  qed
qed

lemma sub_from_SPACES_fixed: "spaces_single s \<Longrightarrow> sub_from SPACES '' '' p s = s"
proof (induction s arbitrary: p rule: spaces_single.induct)
  case 1
  show ?case by simp
next
  case (2 c)
  show ?case
  proof (cases "is_space c")
    case True
    with 2 have "c = CHR '' ''" by simp
    moreover from True obtain p' where
      "sub_from SPACES '' '' p [c] = '' '' @ sub_from SPACES '' '' p' (dropWhile is_space [])"
      using sub_from_SPACES_space by blast
    ultimately show ?thesis by simp
  next
    case False
    then show ?thesis by (simp add: sub_from_SPACES_other)
  qed
next
  case (3 c d cs)
  show ?case
  proof (cases "is_space c")
    case True
    with 3 have c: "c = CHR '' ''" and d: "\<not> is_space d" and rest: "spaces_single (d # cs)" by auto
    from True obtain p' where
      "sub_from SPACES '' '' p (c # d # cs) = '' '' @ sub_from SPACES '' '' p' (dropWhile is_space (d # cs))"
      using sub_from_SPACES_space by blast
    with c d 3(1) [OF rest, of p'] show ?thesis by simp
  next
    case False
    with 3 show ?thesis by (simp add: sub_from_SPACES_other)
  qed
qed

lemma set_sub_from_SPACES: "set (sub_from SPACES '' '' p s) \<subseteq> insert CHR '' '' (set s)"
proof (induction "length s" arbitrary: s p rule: less_induct)
  case less
  show ?case
  proof (cases s)
    case Nil
    then show ?thesis by simp
  next
    case (Cons c cs)
    show ?thesis
    proof (cases "is_space c")
      case False
      with less [of cs "Some c"] Cons show ?thesis
        by (auto simp: sub_from_SPACES_other)
    next
      case True
      then obtain p' where r: "sub_from SPACES '' '' p (c # cs) = '' '' @ sub_from SPACES '' '' p' (dropWhile is_space cs)"
        using sub_from_SPACES_space by blast
      have len: "length (dropWhile is_space cs) < length s"
        using length_dropWhile_le [of is_space cs] Cons by simp
      have "set (dropWhile is_space cs) \<subseteq> set cs" by (rule set_dropWhileD [THEN subsetI])
      with less [OF len, of p'] r Cons show ?thesis by auto
    qed
  qed
qed

section \<open>strip\<close>

lemma set_strip: "set (strip s) \<subseteq> set s"
  by (auto simp: strip_def dest!: set_dropWhileD)

lemma strip_infix: "\<exists>a b. s = a @ strip s @ b"
proof -
  let ?t = "dropWhile is_space s"
  have 1: "s = takeWhile is_space s @ ?t" by simp
  have "rev ?t = takeWhile is_space (rev ?t) @ dropWhile is_space (rev ?t)" by simp
  then have "?t = rev (dropWhile is_space (rev ?t)) @ rev (takeWhile is_space (rev ?t))"
    by (metis rev_append rev_rev_ident)
  then have "?t = strip s @ rev (takeWhile is_space (rev ?t))" by (simp add: strip_def)
  with 1 show ?thesis by metis
qed

lemma strip_ends:
  assumes "strip s \<noteq> []"
  shows "\<not> is_space (hd (strip s))" and "\<not> is_space (last (strip s))"
proof -
  let ?t = "dropWhile is_space s"
  let ?u = "dropWhile is_space (rev ?t)"
  from assms have u: "?u \<noteq> []" by (simp add: strip_def)
  have t: "?t \<noteq> []"
  proof
    assume "?t = []"
    with u show False by simp
  qed
  have "last (strip s) = hd ?u" using u by (simp add: strip_def last_rev)
  moreover have "\<not> is_space (hd ?u)" using u hd_dropWhile by blast
  ultimately show "\<not> is_space (last (strip s))" by simp
  have "hd (strip s) = last ?u" using u by (simp add: strip_def hd_rev)
  also have "\<dots> = last (rev ?t)"
    using u by (metis append_Nil2 last_appendR takeWhile_dropWhile_id)
  also have "\<dots> = hd ?t" using t by (simp add: last_rev)
  finally show "\<not> is_space (hd (strip s))" using t hd_dropWhile by metis
qed

lemma strip_fixed:
  assumes "t \<noteq> [] \<longrightarrow> \<not> is_space (hd t) \<and> \<not> is_space (last t)"
  shows "strip t = t"
proof (cases t)
  case Nil
  then show ?thesis by (simp add: strip_def)
next
  case (Cons c cs)
  with assms have h: "\<not> is_space c" and l: "\<not> is_space (last t)" by auto
  from h Cons have 1: "dropWhile is_space t = t" by simp
  from Cons obtain x xs where x: "rev t = x # xs" by (cases "rev t") auto
  then have "x = last t" using hd_rev [of t] Cons by (metis list.sel(1) list.distinct(1))
  with l have "dropWhile is_space (x # xs) = x # xs" by simp
  with x have "dropWhile is_space (rev t) = rev t" by (simp only:)
  with 1 show ?thesis by (simp add: strip_def)
qed

lemma strip_strip: "strip (strip s) = strip s"
  using strip_ends [of s] by (intro strip_fixed) auto

lemma spaces_single_append: "spaces_single (a @ b) \<Longrightarrow> spaces_single a \<and> spaces_single b"
proof (induction a rule: spaces_single.induct)
  case 1
  then show ?case by simp
next
  case (2 c)
  then show ?case by (cases b) auto
next
  case (3 c d cs)
  then show ?case by auto
qed

lemma spaces_single_strip: "spaces_single s \<Longrightarrow> spaces_single (strip s)"
proof -
  assume s: "spaces_single s"
  obtain a b where "s = a @ strip s @ b" using strip_infix by blast
  with s have "spaces_single (a @ (strip s @ b))" by simp
  then have "spaces_single (strip s @ b)" using spaces_single_append by blast
  then show ?thesis using spaces_single_append by blast
qed


section \<open>The normalizer\<close>

lemma sub_from_BRACKETED_fixed:
  "\<forall>c\<in>set s. c \<noteq> CHR ''('' \<and> c \<noteq> CHR ''['' \<Longrightarrow> sub_from BRACKETED [] p s = s"
proof (induction s arbitrary: p)
  case Nil
  show ?case by (subst sub_from.simps) (simp add: first_match_def BRACKETED_def Cat_def)
next
  case (Cons c cs)
  then show ?case by (subst sub_from.simps) (simp add: first_match_def BRACKETED_def Cat_def)
qed

lemma kept_char_not_bracket: "kept_char c \<Longrightarrow> c \<noteq> CHR ''('' \<and> c \<noteq> CHR ''[''"
  by (auto simp: kept_char_def is_word_ascii is_space_ascii)

lemma kept_char_not_colon: "kept_char c \<Longrightarrow> c \<noteq> CHR '':''"
  by (auto simp: kept_char_def is_word_ascii is_space_ascii)

lemma kept_char_blank: "kept_char CHR '' ''"
  by (simp add: kept_char_def is_space_ascii)

lemma lower_char_fixed: "is_ascii c \<Longrightarrow> \<not> is_upper_ascii c \<Longrightarrow> lower_char c = c"
  by (auto simp: lower_char_def is_ascii_def is_upper_ascii_def Let_def)

lemma unidecode_ascii: "\<forall>c\<in>set s. is_ascii c \<Longrightarrow> unidecode tr s = s"
  by (induction s) (auto simp: unidecode_def)

text \<open>What a normalized name is made of.\<close>

lemma normalize_result:
  assumes "normalize_ingredient_name tr x = Some s"
  shows "s \<noteq> []" and "strip s = s" and "spaces_single s"
    and "\<forall>c\<in>set s. kept_char c"
    and "\<forall>c\<in>set s. c \<in> set (unidecode tr (lower x)) \<or> c = CHR '' ''"
proof -
  let ?u = "unidecode tr (lower x)"
  let ?b = "re_sub BRACKETED [] ?u"
  let ?f = "re_sub NOT_WORD_SPACE_HYPHEN [] ?b"
  let ?g = "re_sub SPACES '' '' ?f"
  from assms have s: "s = strip ?g" and ne: "strip ?g \<noteq> []"
    by (auto simp: normalize_ingredient_name_def Let_def split: if_splits)
  from ne s show "s \<noteq> []" by simp
  from s show "strip s = s" by (simp add: strip_strip)
  from s show "spaces_single s"
    by (simp add: spaces_single_strip spaces_single_sub_from re_sub_def)
  have f: "?f = filter kept_char ?b"
    by (simp add: re_sub_def NOT_WORD_SPACE_HYPHEN_def sub_from_Cls kept_char_def [abs_def])
  have g: "set ?g \<subseteq> insert CHR '' '' (set ?f)"
    by (simp add: re_sub_def set_sub_from_SPACES)
  have b: "set ?b \<subseteq> set ?u"
    by (simp add: re_sub_def set_sub_from_delete)
  have sg: "set s \<subseteq> set ?g" using s set_strip by simp
  show "\<forall>c\<in>set s. kept_char c"
    using sg g f kept_char_blank by auto
  show "\<forall>c\<in>set s. c \<in> set ?u \<or> c = CHR '' ''"
    using sg g f b by auto
qed

lemma normalize_fixed:
  assumes "s \<noteq> []" and "strip s = s" and "spaces_single s"
    and "\<forall>c\<in>set s. kept_char c" and "\<forall>c\<in>set s. is_ascii c \<and> \<not> is_upper_ascii c"
  shows "normalize_ingredient_name tr s = Some s"
proof -
  have 1: "lower s = s"
    using assms(5) by (simp add: lower_def lower_char_fixed map_idI)
  have 2: "unidecode tr s = s"
    using assms(5) by (simp add: unidecode_ascii)
  have 3: "re_sub BRACKETED [] s = s"
    using assms(4) kept_char_not_bracket by (simp add: re_sub_def sub_from_BRACKETED_fixed)
  have 4: "re_sub NOT_WORD_SPACE_HYPHEN [] s = s"
    using assms(4) by (simp add: re_sub_def NOT_WORD_SPACE_HYPHEN_def sub_from_Cls kept_char_def [abs_def])
  have 5: "re_sub SPACES '' '' s = s"
    using assms(3) by (simp add: re_sub_def sub_from_SPACES_fixed)
  from assms(1,2) show ?thesis
    by (simp add: normalize_ingredient_name_def 1 2 3 4 5)
qed

text \<open>
  C9, as stated, fails. The name is put in lower case before it is transliterated, and the
  transliteration can bring upper-case letters back: the library's table gives \<open>PS\<close> for the
  pound sign. The normalizer returns \<open>PS\<close> for it, and \<open>ps\<close> for \<open>PS\<close>.
\<close>

lemma pound_sign:
  "lower_char (CHR 0xA3) = CHR 0xA3" "\<not> is_ascii (CHR 0xA3)"
  by (simp_all add: lower_char_def is_ascii_def code_point_def)

theorem C9_not_idempotent:
  "normalize_ingredient_name sample_table [CHR 0xA3] = Some ''PS''
   \<and> normalize_ingredient_name sample_table ''PS'' = Some ''ps''"
  by (simp add: normalize_ingredient_name_def sample_table_def BRACKETED_def
      NOT_WORD_SPACE_HYPHEN_def SPACES_def text_eval pound_sign)

text \<open>
  C9, amended. If the transliteration of the lower-cased input is ASCII text without
  upper-case letters (as it is for every ASCII input), then normalizing the result of the
  normalizer returns it unchanged.
\<close>

theorem C9_idempotent_without_upper_case:
  assumes "normalize_ingredient_name tr x = Some s"
    and "\<forall>c\<in>set (unidecode tr (lower x)). is_ascii c \<and> \<not> is_upper_ascii c"
  shows "normalize_ingredient_name tr s = Some s"
proof -
  have blank: "is_ascii CHR '' '' \<and> \<not> is_upper_ascii CHR '' ''"
    by (simp add: is_ascii_ascii is_upper_ascii_def code_point_def)
  from normalize_result(5) [OF assms(1)] assms(2) blank
  have "\<forall>c\<in>set s. is_ascii c \<and> \<not> is_upper_ascii c" by auto
  with normalize_result(1-4) [OF assms(1)] show ?thesis
    by (intro normalize_fixed) auto
qed

lemma normalize_wheat: "normalize_ingredient_name sample_table ''  Wheat  Flour (organic) 12%'' = Some ''wheat flour 12''"
  by (simp add: normalize_ingredient_name_def BRACKETED_def
      NOT_WORD_SPACE_HYPHEN_def SPACES_def text_eval)

theorem C9_idempotent_without_upper_case_witness:
  "normalize_ingredient_name sample_table ''  Wheat  Flour (organic) 12%'' = Some ''wheat flour 12''
   \<and> normalize_ingredient_name sample_table ''wheat flour 12'' = Some ''wheat flour 12''"
proof -
  have h: "\<forall>c\<in>set (unidecode sample_table (lower ''  Wheat  Flour (organic) 12%'')). is_ascii c \<and> \<not> is_upper_ascii c"
    by (simp add: unidecode_def lower_def lower_char_ascii is_ascii_ascii is_upper_ascii_def code_point_def)
  from C9_idempotent_without_upper_case [OF normalize_wheat h] normalize_wheat
  show ?thesis by simp
qed

text \<open>For an ASCII input no table is needed.\<close>

lemma normalize_idempotent_ascii:
  assumes "normalize_ingredient_name tr x = Some s" and "\<forall>c\<in>set x. is_ascii c"
  shows "normalize_ingredient_name tr s = Some s"
proof -
  have l: "is_ascii c \<Longrightarrow> is_ascii (lower_char c) \<and> \<not> is_upper_ascii (lower_char c)" for c
    by (auto simp: lower_char_def is_ascii_def is_upper_ascii_def code_point_def Let_def)
  then have a: "\<forall>c\<in>set (lower x). is_ascii c \<and> \<not> is_upper_ascii c"
    using assms(2) by (auto simp: lower_def)
  then have "unidecode tr (lower x) = lower x" by (simp add: unidecode_ascii)
  with a have u: "\<forall>c\<in>set (unidecode tr (lower x)). is_ascii c \<and> \<not> is_upper_ascii c" by simp
  have blank: "is_ascii CHR '' '' \<and> \<not> is_upper_ascii CHR '' ''"
    by (simp add: is_ascii_ascii is_upper_ascii_def code_point_def)
  from normalize_result(5) [OF assms(1)] u blank
  have "\<forall>c\<in>set s. is_ascii c \<and> \<not> is_upper_ascii c" by auto
  with normalize_result(1-4) [OF assms(1)] show ?thesis
    by (intro normalize_fixed) auto
qed


section \<open>Parsed names\<close>

lemma distinct_set_add: "distinct xs \<Longrightarrow> distinct (set_add x xs)"
  by (simp add: set_add_def)

lemma set_set_add [simp]: "set (set_add x xs) = insert x (set xs)"
  by (auto simp: set_add_def)

lemma foldl_add_item:
  assumes "distinct acc" and "\<forall>n\<in>set acc. \<forall>c\<in>set n. kept_char c"
  shows "distinct (foldl (add_item tr) acc items)
         \<and> (\<forall>n\<in>set (foldl (add_item tr) acc items). \<forall>c\<in>set n. kept_char c)"
  using assms
proof (induction items arbitrary: acc)
  case Nil
  then show ?case by simp
next
  case (Cons item items)
  have "distinct (add_item tr acc item)"
    using Cons.prems(1) by (simp add: add_item_def distinct_set_add split: option.splits)
  moreover have "\<forall>n\<in>set (add_item tr acc item). \<forall>c\<in>set n. kept_char c"
    using Cons.prems(2) normalize_result(4)
    by (auto simp: add_item_def split: option.splits)
  ultimately show ?case using Cons.IH by simp
qed

lemma parsed_names:
  assumes "parse_ingredients_from_text tr v = Inr names"
  shows "distinct names" and "\<forall>n\<in>set names. \<forall>c\<in>set n. kept_char c"
    and "\<forall>n\<in>set names. CHR '':'' \<notin> set n"
proof -
  have "distinct names \<and> (\<forall>n\<in>set names. \<forall>c\<in>set n. kept_char c)"
  proof (cases "truthy v")
    case False
    with assms show ?thesis by (simp add: parse_ingredients_from_text_def)
  next
    case True
    with assms obtain s where "names = foldl (add_item tr) [] (re_split COMMA_OUTSIDE_PARENS s)"
      by (auto simp: parse_ingredients_from_text_def split: pyval.splits)
    then show ?thesis using foldl_add_item [of "[]" tr] by simp
  qed
  then show "distinct names" and k: "\<forall>n\<in>set names. \<forall>c\<in>set n. kept_char c" by auto
  show "\<forall>n\<in>set names. CHR '':'' \<notin> set n"
    using k kept_char_not_colon by blast
qed

section \<open>Tag sets\<close>

lemma foldl_add_known:
  assumes "distinct acc" and "set acc \<subseteq> set KNOWN_ALLERGENS"
  shows "distinct (foldl add_known acc tags) \<and> set (foldl add_known acc tags) \<subseteq> set KNOWN_ALLERGENS"
  using assms
proof (induction tags arbitrary: acc)
  case Nil
  then show ?case by simp
next
  case (Cons t ts)
  have "distinct (add_known acc t) \<and> set (add_known acc t) \<subseteq> set KNOWN_ALLERGENS"
    using Cons.prems by (auto simp: add_known_def distinct_set_add split: option.splits)
  then show ?case using Cons.IH by simp
qed

lemma explicit_product_allergens_known:
  "distinct (explicit_product_allergens v)"
  "set (explicit_product_allergens v) \<subseteq> set KNOWN_ALLERGENS"
  using foldl_add_known [of "[]"]
  by (auto simp: explicit_product_allergens_def split: pyval.splits)

lemma processed_traces_allergens_known:
  "distinct (processed_traces_allergens v)"
  "set (processed_traces_allergens v) \<subseteq> set KNOWN_ALLERGENS"
  using foldl_add_known [of "[]"]
  by (auto simp: processed_traces_allergens_def split: pyval.splits)

lemma foldl_suitable:
  "distinct acc \<Longrightarrow>
   distinct (foldl (\<lambda>acc (k, kws). if set kws \<inter> L \<noteq> {} then set_add k acc else acc) acc m)
   \<and> set (foldl (\<lambda>acc (k, kws). if set kws \<inter> L \<noteq> {} then set_add k acc else acc) acc m)
       = set acc \<union> {k. \<exists>kws. (k, kws) \<in> set m \<and> set kws \<inter> L \<noteq> {}}"
proof (induction m arbitrary: acc)
  case Nil
  then show ?case by simp
next
  case (Cons x m)
  obtain k kws where x: "x = (k, kws)" by (cases x)
  show ?case
  proof (cases "set kws \<inter> L \<noteq> {}")
    case True
    with Cons.IH [of "set_add k acc"] Cons.prems x show ?thesis
      by (auto simp: distinct_set_add)
  next
    case False
    with Cons.IH [of acc] Cons.prems x show ?thesis by auto
  qed
qed

lemma suitable_diet_prefs:
  "distinct (suitable_diet_prefs_for_product labels)"
  "set (suitable_diet_prefs_for_product labels)
     = {k. \<exists>kws. (k, kws) \<in> set DIETARY_PREFERENCES_MAP \<and> set kws \<inter> set labels \<noteq> {}}"
  using foldl_suitable [of "[]" "set labels" DIETARY_PREFERENCES_MAP]
  by (simp_all add: suitable_diet_prefs_for_product_def)

section \<open>The rows of the blocks of a record\<close>

lemma allergen_rows_mem:
  "r \<in> set (allergen_rows i) \<Longrightarrow>
     \<exists>a\<in>set KNOWN_ALLERGENS. r = rel_row ''IS_ALLERGEN'' i ''Ingredient'' a ''Allergen''"
  by (auto simp: allergen_rows_def split: if_splits)

lemma conflict_rows_mem:
  "r \<in> set (conflict_rows i) \<Longrightarrow>
     \<exists>p\<in>fst ` set DIETARY_CONFLICT_MAP. r = rel_row ''CONFLICTS_WITH_DIET'' i ''Ingredient'' p ''DietaryPreference''"
  by (force simp: conflict_rows_def split: if_splits)

lemma ingredients_loop_snd: "snd (ingredients_loop c w ings) = w \<union> set ings"
proof (induction ings arbitrary: w)
  case Nil
  then show ?case by simp
next
  case (Cons i ings)
  obtain more w2 where m: "ingredients_loop c (insert i w) ings = (more, w2)"
    by (cases "ingredients_loop c (insert i w) ings")
  with Cons.IH [of "insert i w"] show ?case by (simp add: Let_def)
qed

lemma ingredients_loop_mem:
  "r \<in> set (fst (ingredients_loop c w ings)) \<Longrightarrow>
     (\<exists>i\<in>set ings. i \<notin> w \<and> r = node_row i (PStr []) ''Ingredient'')
     \<or> (\<exists>i\<in>set ings. r = rel_row ''HAS_INGREDIENT'' c ''Product'' i ''Ingredient'')
     \<or> (\<exists>i\<in>set ings. r \<in> set (allergen_rows i))
     \<or> (\<exists>i\<in>set ings. r \<in> set (conflict_rows i))"
proof (induction ings arbitrary: w)
  case Nil
  then show ?case by simp
next
  case (Cons i ings)
  obtain more w2 where m: "ingredients_loop c (insert i w) ings = (more, w2)"
    by (cases "ingredients_loop c (insert i w) ings")
  from Cons.prems m consider
      "r = node_row i (PStr []) ''Ingredient''" "i \<notin> w"
    | "r = rel_row ''HAS_INGREDIENT'' c ''Product'' i ''Ingredient''"
    | "r \<in> set (allergen_rows i)" | "r \<in> set (conflict_rows i)"
    | "r \<in> set (fst (ingredients_loop c (insert i w) ings))"
    by (auto simp: Let_def split: if_splits)
  then show ?case
  proof cases
    case 5
    from Cons.IH [OF 5] show ?thesis by auto
  qed auto
qed

lemma ingredients_loop_count_has:
  "count_list (fst (ingredients_loop c w ings)) (rel_row ''HAS_INGREDIENT'' c ''Product'' x ''Ingredient'')
     = count_list ings x"
proof (induction ings arbitrary: w)
  case Nil
  then show ?case by simp
next
  case (Cons i ings)
  obtain more w2 where m: "ingredients_loop c (insert i w) ings = (more, w2)"
    by (cases "ingredients_loop c (insert i w) ings")
  have a: "count_list (allergen_rows j) (rel_row ''HAS_INGREDIENT'' c ''Product'' x ''Ingredient'') = 0" for j
    using allergen_rows_mem by (intro count_notin) fastforce
  have b: "count_list (conflict_rows j) (rel_row ''HAS_INGREDIENT'' c ''Product'' x ''Ingredient'') = 0" for j
    using conflict_rows_mem by (intro count_notin) fastforce
  from Cons.IH [of "insert i w"] m a b show ?case
    by (simp add: Let_def count_list_append)
qed

lemma count_list_distinct: "distinct xs \<Longrightarrow> count_list xs x \<le> 1"
  by (induction xs) auto

lemma proxy_ingredient_name_inj [simp]:
  "proxy_ingredient_name a c = proxy_ingredient_name a' c \<longleftrightarrow> a = a'"
  by (simp add: proxy_ingredient_name_def)

lemma proxies_loop_mem:
  "r \<in> set (fst (proxies_loop c parsed w as)) \<Longrightarrow>
     \<exists>a\<in>set as. \<not> is_explained_by_ingredient a parsed \<and>
       (r = node_row (proxy_ingredient_name a c) (PStr []) ''Ingredient'' \<and> proxy_ingredient_name a c \<notin> w
        \<or> r = rel_row ''HAS_INGREDIENT'' c ''Product'' (proxy_ingredient_name a c) ''Ingredient''
        \<or> r = rel_row ''IS_ALLERGEN'' (proxy_ingredient_name a c) ''Ingredient'' a ''Allergen'')"
proof (induction as arbitrary: w)
  case Nil
  then show ?case by simp
next
  case (Cons a as)
  show ?case
  proof (cases "is_explained_by_ingredient a parsed")
    case True
    with Cons.prems have "r \<in> set (fst (proxies_loop c parsed w as))" by simp
    from Cons.IH [OF this] show ?thesis by auto
  next
    case False
    let ?w1 = "insert (proxy_ingredient_name a c) w"
    obtain more w2 where m: "proxies_loop c parsed ?w1 as = (more, w2)"
      by (cases "proxies_loop c parsed ?w1 as")
    from Cons.prems False m consider
        "r = node_row (proxy_ingredient_name a c) (PStr []) ''Ingredient''" "proxy_ingredient_name a c \<notin> w"
      | "r = rel_row ''HAS_INGREDIENT'' c ''Product'' (proxy_ingredient_name a c) ''Ingredient''"
      | "r = rel_row ''IS_ALLERGEN'' (proxy_ingredient_name a c) ''Ingredient'' a ''Allergen''"
      | "r \<in> set (fst (proxies_loop c parsed ?w1 as))"
      by (auto simp: Let_def split: if_splits)
    then show ?thesis
    proof cases
      case 4
      from Cons.IH [OF 4] show ?thesis by auto
    qed (use False in auto)
  qed
qed

lemma proxies_loop_count:
  assumes "distinct as"
  shows "count_list (fst (proxies_loop c parsed w as))
           (rel_row ''HAS_INGREDIENT'' c ''Product'' (proxy_ingredient_name a c) ''Ingredient'') \<le> 1"
    and "count_list (fst (proxies_loop c parsed w as))
           (rel_row ''IS_ALLERGEN'' (proxy_ingredient_name a c) ''Ingredient'' a ''Allergen'') \<le> 1"
proof -
  have "count_list (fst (proxies_loop c parsed w as))
           (rel_row ''HAS_INGREDIENT'' c ''Product'' (proxy_ingredient_name a c) ''Ingredient'')
          \<le> count_list as a
        \<and> count_list (fst (proxies_loop c parsed w as))
           (rel_row ''IS_ALLERGEN'' (proxy_ingredient_name a c) ''Ingredient'' a ''Allergen'')
          \<le> count_list as a"
  proof (induction as arbitrary: w)
    case Nil
    then show ?case by simp
  next
    case (Cons b as)
    show ?case
    proof (cases "is_explained_by_ingredient b parsed")
      case True
      with Cons.IH [of w] show ?thesis by (auto intro: le_SucI)
    next
      case False
      let ?w1 = "insert (proxy_ingredient_name b c) w"
      obtain more w2 where m: "proxies_loop c parsed ?w1 as = (more, w2)"
        by (cases "proxies_loop c parsed ?w1 as")
      with Cons.IH [of ?w1] False show ?thesis
        by (auto simp: Let_def count_list_append)
    qed
  qed
  moreover have "count_list as a \<le> 1"
    using assms by (rule count_list_distinct)
  ultimately show
    "count_list (fst (proxies_loop c parsed w as))
           (rel_row ''HAS_INGREDIENT'' c ''Product'' (proxy_ingredient_name a c) ''Ingredient'') \<le> 1"
    "count_list (fst (proxies_loop c parsed w as))
           (rel_row ''IS_ALLERGEN'' (proxy_ingredient_name a c) ''Ingredient'' a ''Allergen'') \<le> 1"
    by linarith+
qed


section \<open>The rows of a record\<close>

lemma rejected_code_str: "rejected_code (PStr c) \<longleftrightarrow> strip c = []"
  by (auto simp: rejected_code_def strip_def)

lemma process_product_processed:
  assumes "code d = Some (PStr c)" and "strip c \<noteq> []"
    and "parse_ingredients_from_text tr (ingredients_text_of d) = Inr parsed"
  shows "process_product tr w d =
     (node_row c (choose_name d c) ''Product''
        # fst (ingredients_loop c w parsed)
        @ fst (proxies_loop c parsed (w \<union> set parsed)
                (explicit_product_allergens (doc_get_default allergens_tags d (PList []))))
        @ map (\<lambda>a. rel_row ''MAY_CONTAIN_ALLERGEN'' c ''Product'' a ''Allergen'')
            (processed_traces_allergens (doc_get_default traces_tags d (PList [])))
        @ map (\<lambda>p. rel_row ''IS_SUITABLE_FOR'' c ''Product'' p ''DietaryPreference'')
            (suitable_diet_prefs_for_product
               (product_dietary_labels (doc_get_default labels_tags d (PList [])))),
      snd (proxies_loop c parsed (w \<union> set parsed)
             (explicit_product_allergens (doc_get_default allergens_tags d (PList [])))),
      Processed)"
proof -
  have g: "doc_get code d = PStr c" using assms(1) by (simp add: doc_get_def doc_get_default_def)
  obtain ir w1 where i: "ingredients_loop c w parsed = (ir, w1)"
    by (cases "ingredients_loop c w parsed")
  then have w1: "w1 = w \<union> set parsed" using ingredients_loop_snd [of c w parsed] by simp
  obtain pr w2 where p: "proxies_loop c parsed w1
      (explicit_product_allergens (doc_get_default allergens_tags d (PList []))) = (pr, w2)"
    by (cases "proxies_loop c parsed w1
      (explicit_product_allergens (doc_get_default allergens_tags d (PList [])))")
  show ?thesis
    using assms(2,3) g i p w1
    by (simp add: process_product_def rejected_code_str Let_def)
qed

lemma process_product_cases:
  obtains (skipped) "process_product tr w d = ([], w, Skipped)"
  | (raised) c e where "code d = Some (PStr c)"
      and "process_product tr w d = ([node_row c (choose_name d c) ''Product''], w, Raised e)"
  | (processed) c parsed where "code d = Some (PStr c)" and "strip c \<noteq> []"
      and "parse_ingredients_from_text tr (ingredients_text_of d) = Inr parsed"
proof (cases "rejected_code (doc_get code d)")
  case True
  then show ?thesis using skipped by (simp add: process_product_def)
next
  case False
  show ?thesis
  proof (cases "doc_get code d")
    case (PStr c)
    then have c: "code d = Some (PStr c)"
      by (auto simp: doc_get_def doc_get_default_def split: option.splits)
    from False PStr have s: "strip c \<noteq> []" by (simp add: rejected_code_str)
    show ?thesis
    proof (cases "parse_ingredients_from_text tr (ingredients_text_of d)")
      case (Inl e)
      with False PStr have "process_product tr w d = ([node_row c (choose_name d c) ''Product''], w, Raised e)"
        by (simp add: process_product_def)
      with c show ?thesis using raised by blast
    next
      case (Inr parsed)
      with c s show ?thesis using processed by blast
    qed
  qed (use False skipped in \<open>simp_all add: process_product_def\<close>)
qed


section \<open>Suitability\<close>

lemma product_dietary_labels_list:
  "set (product_dietary_labels (PList tags))
     = {lower (strip s) | s. PStr s \<in> set tags \<and> lower (strip s) \<noteq> []}"
proof -
  have step: "set (add_label acc t) = set acc \<union> {lower (strip s) | s. t = PStr s \<and> lower (strip s) \<noteq> []}"
    for acc t
    by (cases t) (auto simp: add_label_def clean_tag_def)
  have "set (foldl add_label acc tags)
      = set acc \<union> {lower (strip s) | s. PStr s \<in> set tags \<and> lower (strip s) \<noteq> []}" for acc
  proof (induction tags arbitrary: acc)
    case Nil
    then show ?case by simp
  next
    case (Cons t ts)
    have "set (foldl add_label acc (t # ts)) = set (add_label acc t)
        \<union> {lower (strip s) | s. PStr s \<in> set ts \<and> lower (strip s) \<noteq> []}"
      using Cons [of "add_label acc t"] by simp
    then show ?case unfolding step by auto
  qed
  from this [of "[]"] show ?thesis
    by (simp add: product_dietary_labels_def tags_as_list_def)
qed

lemma product_dietary_labels_text:
  "set (product_dietary_labels (PStr joined))
     = {lower (strip t) | t. t \<in> set (split_char CHR '','' joined) \<and> lower (strip t) \<noteq> []}"
proof -
  let ?pieces = "filter (\<lambda>t. t \<noteq> []) (map strip (split_char CHR '','' joined))"
  have "product_dietary_labels (PStr joined) = product_dietary_labels (PList (map PStr ?pieces))"
    by (simp add: product_dietary_labels_def tags_as_list_def)
  then have "set (product_dietary_labels (PStr joined))
      = {lower (strip s) | s. s \<in> set ?pieces \<and> lower (strip s) \<noteq> []}"
    by (auto simp: product_dietary_labels_list)
  also have "\<dots> = {lower (strip t) | t. t \<in> set (split_char CHR '','' joined) \<and> lower (strip t) \<noteq> []}"
  proof (intro set_eqI iffI)
    fix l
    assume "l \<in> {lower (strip s) | s. s \<in> set ?pieces \<and> lower (strip s) \<noteq> []}"
    then obtain t where "t \<in> set (split_char CHR '','' joined)" and "l = lower (strip (strip t))"
      and "lower (strip (strip t)) \<noteq> []"
      by auto
    then show "l \<in> {lower (strip t) | t. t \<in> set (split_char CHR '','' joined) \<and> lower (strip t) \<noteq> []}"
      unfolding strip_strip by blast
  next
    fix l
    assume "l \<in> {lower (strip t) | t. t \<in> set (split_char CHR '','' joined) \<and> lower (strip t) \<noteq> []}"
    then obtain t where t: "t \<in> set (split_char CHR '','' joined)" "l = lower (strip t)"
      "lower (strip t) \<noteq> []"
      by blast
    from t(3) have n: "strip t \<noteq> []" by (auto simp: lower_def)
    with t(1) have "strip t \<in> set ?pieces" by simp
    moreover from t have "l = lower (strip (strip t))" "lower (strip (strip t)) \<noteq> []"
      by (simp_all add: strip_strip)
    ultimately show "l \<in> {lower (strip s) | s. s \<in> set ?pieces \<and> lower (strip s) \<noteq> []}"
      by blast
  qed
  finally show ?thesis .
qed

lemma product_dietary_labels_other:
  "(\<forall>tags. v \<noteq> PList tags) \<Longrightarrow> (\<forall>joined. v \<noteq> PStr joined) \<Longrightarrow> product_dietary_labels v = []"
  by (cases v) (simp_all add: product_dietary_labels_def tags_as_list_def)

lemma synonyms_not_empty: "(p, synonyms) \<in> set DIETARY_PREFERENCES_MAP \<Longrightarrow> [] \<notin> set synonyms"
  by (auto simp: DIETARY_PREFERENCES_MAP_def)

lemma label_of_field:
  "tag \<in> set (product_dietary_labels (doc_get_default labels_tags d (PList []))) \<longleftrightarrow>
     tag \<noteq> [] \<and>
     ((\<exists>tags s. labels_tags d = Some (PList tags) \<and> PStr s \<in> set tags \<and> tag = lower (strip s))
      \<or> (\<exists>joined s. labels_tags d = Some (PStr joined) \<and> s \<in> set (split_char CHR '','' joined)
            \<and> tag = lower (strip s)))"
proof (cases "labels_tags d")
  case None
  then show ?thesis
    by (simp add: doc_get_default_def product_dietary_labels_def tags_as_list_def)
next
  case (Some v)
  then have g: "doc_get_default labels_tags d (PList []) = v" by (simp add: doc_get_default_def)
  show ?thesis
  proof (cases v)
    case (PList tags)
    with Some g show ?thesis by (auto simp: product_dietary_labels_list)
  next
    case (PStr joined)
    with Some g show ?thesis by (auto simp: product_dietary_labels_text)
  qed (use Some g in \<open>simp_all add: product_dietary_labels_other\<close>)
qed

lemma conflict_rows_milk:
  "conflict_rows ''milk'' =
     [rel_row ''CONFLICTS_WITH_DIET'' ''milk'' ''Ingredient'' ''vegan'' ''DietaryPreference'',
      rel_row ''CONFLICTS_WITH_DIET'' ''milk'' ''Ingredient'' ''lactose_free'' ''DietaryPreference'']"
  by (simp add: conflict_rows_def is_conflicting_ingredient_def table_eval)

text \<open>
  C6. For a record that is processed (its code is a string that is not blank, and the
  splitter returns), the product gets an \<open>IS_SUITABLE_FOR\<close> row to a preference exactly
  when the field \<open>labels_tags\<close> of the record holds a tag that, trimmed and put in lower
  case, is one of the positive synonyms of the preference. The tags of the field are the
  strings of the list when the field is a list, and the pieces between the commas when
  it is a text; a record without the field, or with a field of another shape, has no
  tag. The record has no other \<open>IS_SUITABLE_FOR\<close> row. The ingredients play no part: the
  record of the example, with milk and the label vegan, gets the row to \<open>vegan\<close>.
\<close>

theorem C6_suitable_from_labels:
  assumes "code d = Some (PStr c)" and "strip c \<noteq> []"
    and "parse_ingredients_from_text tr (ingredients_text_of d) = Inr parsed"
  shows "(rel_row ''IS_SUITABLE_FOR'' c ''Product'' p ''DietaryPreference''
            \<in> set (fst (process_product tr w d))
          \<longleftrightarrow> (\<exists>synonyms tag.
                 (p, synonyms) \<in> set DIETARY_PREFERENCES_MAP
               \<and> lower (strip tag) \<in> set synonyms
               \<and> ((\<exists>tags. labels_tags d = Some (PList tags) \<and> PStr tag \<in> set tags)
                  \<or> (\<exists>joined. labels_tags d = Some (PStr joined)
                        \<and> tag \<in> set (split_char CHR '','' joined)))))
         \<and> (\<forall>r\<in>set (fst (process_product tr w d)). rel_type r = PStr ''IS_SUITABLE_FOR'' \<longrightarrow>
               (\<exists>q. r = rel_row ''IS_SUITABLE_FOR'' c ''Product'' q ''DietaryPreference''))"
proof -
  let ?labels = "product_dietary_labels (doc_get_default labels_tags d (PList []))"
  let ?r = "rel_row ''IS_SUITABLE_FOR'' c ''Product'' p ''DietaryPreference''"
  let ?field = "\<lambda>tag. (\<exists>tags. labels_tags d = Some (PList tags) \<and> PStr tag \<in> set tags)
                  \<or> (\<exists>joined. labels_tags d = Some (PStr joined) \<and> tag \<in> set (split_char CHR '','' joined))"
  note rows = process_product_processed [OF assms, of w]
  have ing: "rel_type r \<noteq> PStr ''IS_SUITABLE_FOR''" if "r \<in> set (fst (ingredients_loop c w parsed))" for r
    using ingredients_loop_mem [OF that] allergen_rows_mem conflict_rows_mem by fastforce
  have prox: "rel_type r \<noteq> PStr ''IS_SUITABLE_FOR''"
    if "r \<in> set (fst (proxies_loop c parsed w' as))" for r w' as
    using proxies_loop_mem [OF that] by fastforce
  have 1: "?r \<in> set (fst (process_product tr w d)) \<longleftrightarrow> p \<in> set (suitable_diet_prefs_for_product ?labels)"
    using ing [of ?r] prox [of ?r] by (auto simp: rows)
  have 2: "p \<in> set (suitable_diet_prefs_for_product ?labels)
      \<longleftrightarrow> (\<exists>synonyms. (p, synonyms) \<in> set DIETARY_PREFERENCES_MAP
                \<and> (\<exists>l\<in>set ?labels. l \<in> set synonyms))"
    by (auto simp: suitable_diet_prefs(2))
  have 3: "(\<exists>l\<in>set ?labels. l \<in> set synonyms) \<longleftrightarrow> (\<exists>tag. lower (strip tag) \<in> set synonyms \<and> ?field tag)"
    if "(p, synonyms) \<in> set DIETARY_PREFERENCES_MAP" for synonyms
  proof
    assume "\<exists>l\<in>set ?labels. l \<in> set synonyms"
    then obtain l where l: "l \<in> set ?labels" "l \<in> set synonyms" by blast
    from l(1) obtain tag where "l = lower (strip tag)" and "?field tag"
      unfolding label_of_field by blast
    with l(2) show "\<exists>tag. lower (strip tag) \<in> set synonyms \<and> ?field tag" by blast
  next
    assume "\<exists>tag. lower (strip tag) \<in> set synonyms \<and> ?field tag"
    then obtain tag where t: "lower (strip tag) \<in> set synonyms" "?field tag" by blast
    from t(1) synonyms_not_empty [OF that] have "lower (strip tag) \<noteq> []" by metis
    with t(2) have "lower (strip tag) \<in> set ?labels"
      unfolding label_of_field by blast
    with t(1) show "\<exists>l\<in>set ?labels. l \<in> set synonyms" by blast
  qed
  have 4: "\<exists>q. r = rel_row ''IS_SUITABLE_FOR'' c ''Product'' q ''DietaryPreference''"
    if "r \<in> set (fst (process_product tr w d))" and "rel_type r = PStr ''IS_SUITABLE_FOR''" for r
    using that ing [of r] prox [of r] by (auto simp: rows)
  from 1 2 3 have "?r \<in> set (fst (process_product tr w d))
      \<longleftrightarrow> (\<exists>synonyms tag. (p, synonyms) \<in> set DIETARY_PREFERENCES_MAP
            \<and> lower (strip tag) \<in> set synonyms \<and> ?field tag)"
    by blast
  with 4 show ?thesis by blast
qed

theorem C6_suitable_from_labels_witness:
  "rel_row ''IS_SUITABLE_FOR'' ''123'' ''Product'' ''vegan'' ''DietaryPreference''
     \<in> set (fst (process_product sample_table {} vegan_milk_doc))
   \<and> rel_row ''CONFLICTS_WITH_DIET'' ''milk'' ''Ingredient'' ''vegan'' ''DietaryPreference''
     \<in> set (fst (process_product sample_table {} vegan_milk_doc))
   \<and> rel_row ''IS_SUITABLE_FOR'' ''123'' ''Product'' ''vegetarian'' ''DietaryPreference''
     \<notin> set (fst (process_product sample_table {} vegan_milk_doc))
   \<and> rel_row ''IS_SUITABLE_FOR'' ''124'' ''Product'' ''vegan'' ''DietaryPreference''
     \<in> set (fst (process_product sample_table {} labels_text_doc))
   \<and> rel_row ''IS_SUITABLE_FOR'' ''124'' ''Product'' ''vegetarian'' ''DietaryPreference''
     \<in> set (fst (process_product sample_table {} labels_text_doc))
   \<and> rel_row ''IS_SUITABLE_FOR'' ''124'' ''Product'' ''gluten_free'' ''DietaryPreference''
     \<notin> set (fst (process_product sample_table {} labels_text_doc))
   \<and> rel_row ''IS_SUITABLE_FOR'' ''125'' ''Product'' ''vegan'' ''DietaryPreference''
     \<notin> set (fst (process_product sample_table {} labels_number_doc))"
proof -
  have c: "code vegan_milk_doc = Some (PStr ''123'')" by (simp add: vegan_milk_doc_def empty_doc_def)
  have s: "strip ''123'' \<noteq> []" by (simp add: strip_def is_space_ascii)
  have p: "parse_ingredients_from_text sample_table (ingredients_text_of vegan_milk_doc) = Inr [''milk'']"
    by (simp add: vegan_milk_doc_def empty_doc_def ingredients_text_of_def py_or_def doc_get_def
        doc_get_default_def parse_eval)
  have l: "labels_tags vegan_milk_doc = Some (PList [PStr '' EN:Vegan''])"
    by (simp add: vegan_milk_doc_def empty_doc_def)
  have t: "lower (strip '' EN:Vegan'') = ''en:vegan''" by (simp add: text_eval)
  have i: "rel_row ''CONFLICTS_WITH_DIET'' ''milk'' ''Ingredient'' ''vegan'' ''DietaryPreference''
      \<in> set (fst (process_product sample_table {} vegan_milk_doc))"
    by (simp add: process_product_processed [OF c s p] conflict_rows_milk Let_def split: prod.splits)
  have c2: "code labels_text_doc = Some (PStr ''124'')" by (simp add: labels_text_doc_def empty_doc_def)
  have s2: "strip ''124'' \<noteq> []" by (simp add: strip_def is_space_ascii)
  have p2: "parse_ingredients_from_text sample_table (ingredients_text_of labels_text_doc) = Inr []"
    by (simp add: labels_text_doc_def empty_doc_def ingredients_text_of_def py_or_def doc_get_def
        doc_get_default_def parse_eval)
  have l2: "labels_tags labels_text_doc = Some (PStr ''en:organic, EN:Vegan ,Vegetarian'')"
    by (simp add: labels_text_doc_def empty_doc_def)
  have sp: "split_char CHR '','' ''en:organic, EN:Vegan ,Vegetarian''
      = [''en:organic'', '' EN:Vegan '', ''Vegetarian'']"
    by simp
  have t2: "lower (strip ''en:organic'') = ''en:organic''" "lower (strip '' EN:Vegan '') = ''en:vegan''"
    "lower (strip ''Vegetarian'') = ''vegetarian''"
    by (simp_all add: text_eval)
  have c3: "code labels_number_doc = Some (PStr ''125'')" by (simp add: labels_number_doc_def empty_doc_def)
  have s3: "strip ''125'' \<noteq> []" by (simp add: strip_def is_space_ascii)
  have p3: "parse_ingredients_from_text sample_table (ingredients_text_of labels_number_doc) = Inr []"
    by (simp add: labels_number_doc_def empty_doc_def ingredients_text_of_def py_or_def doc_get_def
        doc_get_default_def parse_eval)
  have l3: "labels_tags labels_number_doc = Some (PInt 7)"
    by (simp add: labels_number_doc_def empty_doc_def)
  have 1: "rel_row ''IS_SUITABLE_FOR'' ''123'' ''Product'' ''vegan'' ''DietaryPreference''
     \<in> set (fst (process_product sample_table {} vegan_milk_doc))"
    using C6_suitable_from_labels [OF c s p, of "''vegan''" "{}"] t
    by (auto simp: l DIETARY_PREFERENCES_MAP_def)
  have 2: "rel_row ''IS_SUITABLE_FOR'' ''123'' ''Product'' ''vegetarian'' ''DietaryPreference''
     \<notin> set (fst (process_product sample_table {} vegan_milk_doc))"
    using C6_suitable_from_labels [OF c s p, of "''vegetarian''" "{}"] t
    by (auto simp: l DIETARY_PREFERENCES_MAP_def)
  have 3: "rel_row ''IS_SUITABLE_FOR'' ''124'' ''Product'' ''vegan'' ''DietaryPreference''
     \<in> set (fst (process_product sample_table {} labels_text_doc))"
    using C6_suitable_from_labels [OF c2 s2 p2, of "''vegan''" "{}"] t2
    by (auto simp: l2 sp DIETARY_PREFERENCES_MAP_def)
  have 4: "rel_row ''IS_SUITABLE_FOR'' ''124'' ''Product'' ''vegetarian'' ''DietaryPreference''
     \<in> set (fst (process_product sample_table {} labels_text_doc))"
    using C6_suitable_from_labels [OF c2 s2 p2, of "''vegetarian''" "{}"] t2
    by (auto simp: l2 sp DIETARY_PREFERENCES_MAP_def)
  have 5: "rel_row ''IS_SUITABLE_FOR'' ''124'' ''Product'' ''gluten_free'' ''DietaryPreference''
     \<notin> set (fst (process_product sample_table {} labels_text_doc))"
    using C6_suitable_from_labels [OF c2 s2 p2, of "''gluten_free''" "{}"] t2
    by (auto simp: l2 sp DIETARY_PREFERENCES_MAP_def)
  have 6: "rel_row ''IS_SUITABLE_FOR'' ''125'' ''Product'' ''vegan'' ''DietaryPreference''
     \<notin> set (fst (process_product sample_table {} labels_number_doc))"
    using C6_suitable_from_labels [OF c3 s3 p3, of "''vegan''" "{}"]
    by (simp add: l3)
  from 1 i 2 3 4 5 6 show ?thesis by (intro conjI)
qed

section \<open>Duplicate tags\<close>

lemma KNOWN_ALLERGENS_colon: "a \<in> set KNOWN_ALLERGENS \<Longrightarrow> CHR '':'' \<in> set a"
  by (auto simp: KNOWN_ALLERGENS_def)

lemma proxy_has_colon: "a \<in> set KNOWN_ALLERGENS \<Longrightarrow> CHR '':'' \<in> set (proxy_ingredient_name a c)"
  using KNOWN_ALLERGENS_colon by (simp add: proxy_ingredient_name_def)

lemma count_list_map_distinct:
  "distinct xs \<Longrightarrow> inj f \<Longrightarrow> count_list (map f xs) y \<le> 1"
  by (intro count_list_distinct) (auto simp: distinct_map inj_on_def inj_def)

text \<open>
  C10. In the rows of one record with code \<open>c\<close>, a \<open>MAY_CONTAIN_ALLERGEN\<close> row to an
  allergen, an \<open>IS_SUITABLE_FOR\<close> row to a preference, and the two relationship rows of
  the proxy ingredient of an allergen each occur at most once, however often a tag is
  repeated in the tag fields.
\<close>

theorem C10_duplicate_tags_collapse:
  assumes "code d = Some (PStr c)"
  shows "(\<forall>a. count_list (fst (process_product tr w d))
               (rel_row ''MAY_CONTAIN_ALLERGEN'' c ''Product'' a ''Allergen'') \<le> 1)
       \<and> (\<forall>p. count_list (fst (process_product tr w d))
               (rel_row ''IS_SUITABLE_FOR'' c ''Product'' p ''DietaryPreference'') \<le> 1)
       \<and> (\<forall>a. count_list (fst (process_product tr w d))
               (rel_row ''HAS_INGREDIENT'' c ''Product'' (proxy_ingredient_name a c) ''Ingredient'') \<le> 1
             \<and> count_list (fst (process_product tr w d))
               (rel_row ''IS_ALLERGEN'' (proxy_ingredient_name a c) ''Ingredient'' a ''Allergen'') \<le> 1)"
proof (cases rule: process_product_cases [of tr w d])
  case skipped
  then show ?thesis by simp
next
  case (raised c' e)
  then show ?thesis by simp
next
  case (processed c' parsed)
  with assms have c': "c' = c" by simp
  let ?explicit = "explicit_product_allergens (doc_get_default allergens_tags d (PList []))"
  let ?traces = "processed_traces_allergens (doc_get_default traces_tags d (PList []))"
  let ?suit = "suitable_diet_prefs_for_product (product_dietary_labels (doc_get_default labels_tags d (PList [])))"
  let ?ing = "fst (ingredients_loop c w parsed)"
  let ?prox = "fst (proxies_loop c parsed (w \<union> set parsed) ?explicit)"
  let ?tr = "map (\<lambda>a. rel_row ''MAY_CONTAIN_ALLERGEN'' c ''Product'' a ''Allergen'') ?traces"
  let ?su = "map (\<lambda>p. rel_row ''IS_SUITABLE_FOR'' c ''Product'' p ''DietaryPreference'') ?suit"
  have rows: "fst (process_product tr w d) = node_row c (choose_name d c) ''Product'' # ?ing @ ?prox @ ?tr @ ?su"
    using process_product_processed [OF processed(1) processed(2) processed(3), of w] c' by simp
  note names = parsed_names [OF processed(3)]
  have ing_types: "rel_type r \<in> {PStr [], PStr ''HAS_INGREDIENT'', PStr ''IS_ALLERGEN'', PStr ''CONFLICTS_WITH_DIET''}"
    if "r \<in> set ?ing" for r
    using ingredients_loop_mem [OF that] allergen_rows_mem conflict_rows_mem by fastforce
  have prox_types: "rel_type r \<in> {PStr [], PStr ''HAS_INGREDIENT'', PStr ''IS_ALLERGEN''}"
    if "r \<in> set ?prox" for r
    using proxies_loop_mem [OF that] by fastforce
  have may: "count_list (fst (process_product tr w d))
               (rel_row ''MAY_CONTAIN_ALLERGEN'' c ''Product'' a ''Allergen'') \<le> 1" for a
  proof -
    let ?R = "rel_row ''MAY_CONTAIN_ALLERGEN'' c ''Product'' a ''Allergen''"
    have "?R \<notin> set ?ing" using ing_types [of ?R] by auto
    moreover have "?R \<notin> set ?prox" using prox_types [of ?R] by auto
    moreover have "?R \<notin> set ?su" by auto
    moreover have "count_list ?tr ?R \<le> 1"
      by (intro count_list_map_distinct processed_traces_allergens_known(1)) (simp add: inj_def)
    ultimately show ?thesis by (simp add: rows)
  qed
  have suit: "count_list (fst (process_product tr w d))
               (rel_row ''IS_SUITABLE_FOR'' c ''Product'' p ''DietaryPreference'') \<le> 1" for p
  proof -
    let ?R = "rel_row ''IS_SUITABLE_FOR'' c ''Product'' p ''DietaryPreference''"
    have "?R \<notin> set ?ing" using ing_types [of ?R] by auto
    moreover have "?R \<notin> set ?prox" using prox_types [of ?R] by auto
    moreover have "?R \<notin> set ?tr" by auto
    moreover have "count_list ?su ?R \<le> 1"
      by (intro count_list_map_distinct suitable_diet_prefs(1)) (simp add: inj_def)
    ultimately show ?thesis by (simp add: rows)
  qed
  have has: "count_list (fst (process_product tr w d))
               (rel_row ''HAS_INGREDIENT'' c ''Product'' (proxy_ingredient_name a c) ''Ingredient'') \<le> 1" for a
  proof -
    let ?R = "rel_row ''HAS_INGREDIENT'' c ''Product'' (proxy_ingredient_name a c) ''Ingredient''"
    have t: "?R \<notin> set ?tr" and s: "?R \<notin> set ?su" by auto
    have i: "count_list ?ing ?R = count_list parsed (proxy_ingredient_name a c)"
      by (rule ingredients_loop_count_has)
    have p: "count_list ?prox ?R \<le> 1"
      by (rule proxies_loop_count(1) [OF explicit_product_allergens_known(1)])
    show ?thesis
    proof (cases "proxy_ingredient_name a c \<in> set parsed")
      case True
      then have "CHR '':'' \<notin> set (proxy_ingredient_name a c)" using names(3) by blast
      then have "a \<notin> set KNOWN_ALLERGENS" using proxy_has_colon by blast
      then have "a \<notin> set ?explicit" using explicit_product_allergens_known(2) by blast
      then have "?R \<notin> set ?prox" using proxies_loop_mem [of ?R c parsed _ ?explicit] by auto
      moreover have "count_list parsed (proxy_ingredient_name a c) \<le> 1"
        using names(1) by (rule count_list_distinct)
      ultimately show ?thesis using t s i by (simp add: rows)
    next
      case False
      with t s i p show ?thesis by (simp add: rows)
    qed
  qed
  have isa: "count_list (fst (process_product tr w d))
               (rel_row ''IS_ALLERGEN'' (proxy_ingredient_name a c) ''Ingredient'' a ''Allergen'') \<le> 1" for a
  proof -
    let ?R = "rel_row ''IS_ALLERGEN'' (proxy_ingredient_name a c) ''Ingredient'' a ''Allergen''"
    have t: "?R \<notin> set ?tr" and s: "?R \<notin> set ?su" by auto
    have "?R \<notin> set ?ing"
    proof
      assume "?R \<in> set ?ing"
      from ingredients_loop_mem [OF this] obtain i where i: "i \<in> set parsed" and "?R \<in> set (allergen_rows i)"
        using conflict_rows_mem by fastforce
      from allergen_rows_mem [OF this(2)] have "i = proxy_ingredient_name a c" and "a \<in> set KNOWN_ALLERGENS"
        by auto
      with i names(3) proxy_has_colon show False by blast
    qed
    moreover have "count_list ?prox ?R \<le> 1"
      by (rule proxies_loop_count(2) [OF explicit_product_allergens_known(1)])
    ultimately show ?thesis using t s by (simp add: rows)
  qed
  from may suit has isa show ?thesis by blast
qed


theorem C10_duplicate_tags_collapse_witness:
  "fst (process_product sample_table {} repeated_tags_doc) =
     [node_row ''9'' (PStr ''Product 9'') ''Product'',
      node_row ''en:milk_source_for_9'' (PStr []) ''Ingredient'',
      rel_row ''HAS_INGREDIENT'' ''9'' ''Product'' ''en:milk_source_for_9'' ''Ingredient'',
      rel_row ''IS_ALLERGEN'' ''en:milk_source_for_9'' ''Ingredient'' ''en:milk'' ''Allergen'',
      rel_row ''MAY_CONTAIN_ALLERGEN'' ''9'' ''Product'' ''en:nuts'' ''Allergen'',
      rel_row ''IS_SUITABLE_FOR'' ''9'' ''Product'' ''vegan'' ''DietaryPreference'']
   \<and> count_list (fst (process_product sample_table {} repeated_tags_doc))
         (rel_row ''MAY_CONTAIN_ALLERGEN'' ''9'' ''Product'' ''en:nuts'' ''Allergen'') \<le> 1"
proof -
  have c: "code repeated_tags_doc = Some (PStr ''9'')"
    by (simp add: repeated_tags_doc_def empty_doc_def)
  have "fst (process_product sample_table {} repeated_tags_doc) =
     [node_row ''9'' (PStr ''Product 9'') ''Product'',
      node_row ''en:milk_source_for_9'' (PStr []) ''Ingredient'',
      rel_row ''HAS_INGREDIENT'' ''9'' ''Product'' ''en:milk_source_for_9'' ''Ingredient'',
      rel_row ''IS_ALLERGEN'' ''en:milk_source_for_9'' ''Ingredient'' ''en:milk'' ''Allergen'',
      rel_row ''MAY_CONTAIN_ALLERGEN'' ''9'' ''Product'' ''en:nuts'' ''Allergen'',
      rel_row ''IS_SUITABLE_FOR'' ''9'' ''Product'' ''vegan'' ''DietaryPreference'']"
    by (simp add: repeated_tags_doc_def record_eval parse_ingredients_from_text_def text_eval
        is_explained_by_ingredient_def proxy_ingredient_name_def
        KNOWN_ALLERGENS_def DIETARY_PREFERENCES_MAP_def Let_def)
  with C10_duplicate_tags_collapse [OF c, of sample_table "{}"] show ?thesis by blast
qed


section \<open>Node rows written once\<close>

text \<open>The rows of the first loop do not depend on the order in which it meets the names:
  every name that was not written before gets one row.\<close>

lemma count_write_nodes_once:
  "count_list (write_nodes_once label written names) r
     = (if \<exists>name. name \<in> set names \<and> name \<notin> written \<and> r = node_row name (PStr []) label
        then 1 else 0)"
proof (induction names arbitrary: written)
  case Nil
  then show ?case by simp
next
  case (Cons name rest)
  show ?case
  proof (cases "name \<in> written")
    case True
    have "(\<exists>n. n \<in> set (name # rest) \<and> n \<notin> written \<and> r = node_row n (PStr []) label)
        \<longleftrightarrow> (\<exists>n. n \<in> set rest \<and> n \<notin> written \<and> r = node_row n (PStr []) label)"
      using True by (simp only: set_simps insert_iff) metis
    with True Cons [of written] show ?thesis by (simp only: write_nodes_once.simps not_True_eq_False if_False)
  next
    case False
    have w: "write_nodes_once label written (name # rest)
        = node_row name (PStr []) label # write_nodes_once label (insert name written) rest"
      using False by simp
    show ?thesis
    proof (cases "r = node_row name (PStr []) label")
      case r: True
      have "\<not> (\<exists>n. n \<in> set rest \<and> n \<notin> insert name written \<and> r = node_row n (PStr []) label)"
        unfolding r node_row_eq by (simp only: insert_iff) metis
      then have "count_list (write_nodes_once label (insert name written) rest) r = 0"
        unfolding Cons [of "insert name written"] by (simp only: if_False)
      moreover have "\<exists>n. n \<in> set (name # rest) \<and> n \<notin> written \<and> r = node_row n (PStr []) label"
        using r False by (intro exI [of _ name]) simp
      ultimately show ?thesis unfolding w using r by simp
    next
      case r: False
      have "(\<exists>n. n \<in> set (name # rest) \<and> n \<notin> written \<and> r = node_row n (PStr []) label)
          \<longleftrightarrow> (\<exists>n. n \<in> set rest \<and> n \<notin> insert name written \<and> r = node_row n (PStr []) label)"
        using r by (simp only: set_simps insert_iff) metis
      moreover have "count_list (write_nodes_once label written (name # rest)) r
          = count_list (write_nodes_once label (insert name written) rest) r"
        unfolding w using r by simp
      ultimately show ?thesis unfolding Cons [of "insert name written"] by (simp only:)
    qed
  qed
qed

lemma allergen_rows_any_order:
  assumes "set names = set KNOWN_ALLERGENS"
  shows "count_list (write_nodes_once ''Allergen'' {} names) r
           = count_list (write_nodes_once ''Allergen'' {} KNOWN_ALLERGENS) r"
  unfolding count_write_nodes_once assms ..

lemma node_keys_Nil [simp]: "node_keys [] = {}"
  by (simp add: node_keys_def)

lemma node_keys_Cons [simp]:
  "node_keys (r # rs) =
     (if line_type r = PStr ''Node'' \<and> row_label r \<noteq> PStr ''Product''
      then insert (row_label r, row_id r) (node_keys rs) else node_keys rs)"
  by (auto simp: node_keys_def)

lemma node_keys_append [simp]: "node_keys (xs @ ys) = node_keys xs \<union> node_keys ys"
  by (auto simp: node_keys_def)

lemma ordered_rows_append:
  "ordered_rows S (xs @ ys) \<longleftrightarrow> ordered_rows S xs \<and> ordered_rows (S \<union> node_keys xs) ys"
  by (induction xs arbitrary: S) auto

lemma ordered_rows_take: "ordered_rows S xs \<Longrightarrow> ordered_rows S (take n xs)"
  using ordered_rows_append [of S "take n xs" "drop n xs"] by simp

lemma count_nodes_Nil [simp]: "count_nodes k i [] = 0"
  by (simp add: count_nodes_def)

lemma count_nodes_Cons [simp]:
  "count_nodes k i (r # rs) =
     (if line_type r = PStr ''Node'' \<and> row_label r = k \<and> row_id r = i then 1 else 0)
     + count_nodes k i rs"
  by (simp add: count_nodes_def)

lemma count_nodes_append [simp]: "count_nodes k i (xs @ ys) = count_nodes k i xs + count_nodes k i ys"
  by (simp add: count_nodes_def)

lemma count_nodes_take: "count_nodes k i (take n xs) \<le> count_nodes k i xs"
  using count_nodes_append [of k i "take n xs" "drop n xs"] by simp

lemma ordered_rows_count:
  assumes "ordered_rows S xs" and "k \<noteq> PStr ''Product''"
  shows "count_nodes k i xs \<le> 1 \<and> ((k, i) \<in> S \<longrightarrow> count_nodes k i xs = 0)"
  using assms(1)
proof (induction xs arbitrary: S)
  case Nil
  then show ?case by simp
next
  case (Cons r rs)
  show ?case
  proof (cases "line_type r = PStr ''Node'' \<and> row_label r \<noteq> PStr ''Product''")
    case True
    with Cons.prems have "(row_label r, row_id r) \<notin> S"
      and "ordered_rows (insert (row_label r, row_id r) S) rs" by auto
    with Cons.IH [of "insert (row_label r, row_id r) S"] True show ?thesis by auto
  next
    case False
    with Cons.prems have "ordered_rows S rs" by auto
    with Cons.IH [of S] False assms(2) show ?thesis by auto
  qed
qed

lemma node_keys_count: "(k, i) \<in> node_keys xs \<Longrightarrow> 1 \<le> count_nodes k i xs"
  by (induction xs) (auto split: if_splits)

lemma ordered_rows_refs:
  assumes "ordered_rows S xs" and "r \<in> set xs" and "line_type r = PStr ''Relationship''"
  shows "(from_label r = PStr ''Product'' \<or> (from_label r, from_id r) \<in> S \<union> node_keys xs)
       \<and> (to_label r = PStr ''Product'' \<or> (to_label r, to_id r) \<in> S \<union> node_keys xs)"
  using assms(1,2)
proof (induction xs arbitrary: S)
  case Nil
  then show ?case by simp
next
  case (Cons x xs)
  show ?case
  proof (cases "line_type x = PStr ''Node'' \<and> row_label x \<noteq> PStr ''Product''")
    case True
    with Cons.prems assms(3) have "r \<in> set xs"
      and "ordered_rows (insert (row_label x, row_id x) S) xs" by auto
    from Cons.IH [OF this(2,1)] True show ?thesis by auto
  next
    case False
    with Cons.prems have o: "ordered_rows S xs" by auto
    show ?thesis
    proof (cases "r = x")
      case True
      with Cons.prems False assms(3) show ?thesis by auto
    next
      case False
      with Cons.prems have "r \<in> set xs" by simp
      from Cons.IH [OF o this] \<open>\<not> (line_type x = PStr ''Node'' \<and> row_label x \<noteq> PStr ''Product'')\<close>
      show ?thesis by auto
    qed
  qed
qed

text \<open>In a list that is ordered from the empty set, a referenced pair has one row.\<close>

lemma ordered_rows_exactly_one:
  assumes "ordered_rows {} xs" and "r \<in> set xs" and "line_type r = PStr ''Relationship''"
  shows "(from_label r \<noteq> PStr ''Product'' \<longrightarrow> count_nodes (from_label r) (from_id r) xs = 1)
       \<and> (to_label r \<noteq> PStr ''Product'' \<longrightarrow> count_nodes (to_label r) (to_id r) xs = 1)"
proof -
  have "count_nodes k i xs = 1" if "(k, i) \<in> node_keys xs" and "k \<noteq> PStr ''Product''" for k i
    using ordered_rows_count [OF assms(1) that(2), of i] node_keys_count [OF that(1)] by linarith
  with ordered_rows_refs [OF assms] show ?thesis by auto
qed

lemma relationships_ordered:
  assumes "\<forall>r\<in>set xs. line_type r = PStr ''Relationship''
             \<and> (from_label r = PStr ''Product'' \<or> (from_label r, from_id r) \<in> S)
             \<and> (to_label r = PStr ''Product'' \<or> (to_label r, to_id r) \<in> S)"
  shows "ordered_rows S xs \<and> node_keys xs = {}"
  using assms by (induction xs) auto


section \<open>The rows of a run are ordered\<close>

lemma ledger_keys_insert: "ledger_keys (insert x w) = insert (PStr ''Ingredient'', PStr x) (ledger_keys w)"
  by (auto simp: ledger_keys_def)

lemma ledger_keys_ingredient [simp]: "(PStr ''Ingredient'', PStr x) \<in> ledger_keys w \<longleftrightarrow> x \<in> w"
  by (auto simp: ledger_keys_def)

lemma ledger_keys_allergen: "a \<in> set KNOWN_ALLERGENS \<Longrightarrow> (PStr ''Allergen'', PStr a) \<in> ledger_keys w"
  by (simp add: ledger_keys_def)

lemma ledger_keys_diet:
  "p \<in> fst ` set DIETARY_PREFERENCES_MAP \<Longrightarrow> (PStr ''DietaryPreference'', PStr p) \<in> ledger_keys w"
  by (simp add: ledger_keys_def)

lemma conflict_diets_are_preferences:
  "fst ` set DIETARY_CONFLICT_MAP \<subseteq> fst ` set DIETARY_PREFERENCES_MAP"
  by (simp add: DIETARY_CONFLICT_MAP_def DIETARY_PREFERENCES_MAP_def)

lemma ledger_keys_mono: "w \<subseteq> w' \<Longrightarrow> ledger_keys w \<subseteq> ledger_keys w'"
  by (auto simp: ledger_keys_def)

lemma allergen_rows_ordered:
  assumes "i \<in> w"
  shows "ordered_rows (ledger_keys w) (allergen_rows i) \<and> node_keys (allergen_rows i) = {}"
proof (rule relationships_ordered, rule ballI)
  fix r assume "r \<in> set (allergen_rows i)"
  from allergen_rows_mem [OF this] assms ledger_keys_allergen
  show "line_type r = PStr ''Relationship''
      \<and> (from_label r = PStr ''Product'' \<or> (from_label r, from_id r) \<in> ledger_keys w)
      \<and> (to_label r = PStr ''Product'' \<or> (to_label r, to_id r) \<in> ledger_keys w)"
    by auto
qed

lemma conflict_rows_ordered:
  assumes "i \<in> w"
  shows "ordered_rows (ledger_keys w) (conflict_rows i) \<and> node_keys (conflict_rows i) = {}"
proof (rule relationships_ordered, rule ballI)
  fix r assume "r \<in> set (conflict_rows i)"
  from conflict_rows_mem [OF this] obtain p where p: "p \<in> fst ` set DIETARY_CONFLICT_MAP"
    and r: "r = rel_row ''CONFLICTS_WITH_DIET'' i ''Ingredient'' p ''DietaryPreference''" by blast
  from p conflict_diets_are_preferences have "p \<in> fst ` set DIETARY_PREFERENCES_MAP" by blast
  then have "(PStr ''DietaryPreference'', PStr p) \<in> ledger_keys w" by (rule ledger_keys_diet)
  with r assms
  show "line_type r = PStr ''Relationship''
      \<and> (from_label r = PStr ''Product'' \<or> (from_label r, from_id r) \<in> ledger_keys w)
      \<and> (to_label r = PStr ''Product'' \<or> (to_label r, to_id r) \<in> ledger_keys w)"
    by simp
qed

lemma ingredients_loop_ordered:
  "ordered_rows (ledger_keys w) (fst (ingredients_loop c w ings))
   \<and> ledger_keys w \<union> node_keys (fst (ingredients_loop c w ings)) = ledger_keys (w \<union> set ings)"
proof (induction ings arbitrary: w)
  case Nil
  then show ?case by simp
next
  case (Cons i ings)
  let ?w1 = "insert i w"
  obtain more w2 where m: "ingredients_loop c ?w1 ings = (more, w2)"
    by (cases "ingredients_loop c ?w1 ings")
  from Cons.IH [of ?w1] m
  have more: "ordered_rows (ledger_keys ?w1) more"
    and keys: "ledger_keys ?w1 \<union> node_keys more = ledger_keys (?w1 \<union> set ings)" by auto
  have a: "ordered_rows (ledger_keys ?w1) (allergen_rows i)" "node_keys (allergen_rows i) = {}"
    using allergen_rows_ordered [of i ?w1] by auto
  have b: "ordered_rows (ledger_keys ?w1) (conflict_rows i)" "node_keys (conflict_rows i) = {}"
    using conflict_rows_ordered [of i ?w1] by auto
  have rest: "ordered_rows (ledger_keys ?w1)
      (rel_row ''HAS_INGREDIENT'' c ''Product'' i ''Ingredient'' # allergen_rows i @ conflict_rows i @ more)"
    using a b more by (simp add: ordered_rows_append)
  have rest_keys: "node_keys (rel_row ''HAS_INGREDIENT'' c ''Product'' i ''Ingredient''
      # allergen_rows i @ conflict_rows i @ more) = node_keys more"
    using a b by simp
  show ?case
  proof (cases "i \<in> w")
    case True
    then have "?w1 = w" and "insert i (w \<union> set ings) = w \<union> set ings" by auto
    with rest rest_keys keys m True show ?thesis by (simp add: Let_def)
  next
    case False
    have "ordered_rows (ledger_keys w)
        (node_row i (PStr []) ''Ingredient'' # rel_row ''HAS_INGREDIENT'' c ''Product'' i ''Ingredient''
           # allergen_rows i @ conflict_rows i @ more)"
      using rest False by (simp add: ledger_keys_insert del: ordered_rows.simps(2))
         (simp add: ledger_keys_insert)
    moreover have "ledger_keys w \<union> node_keys (node_row i (PStr []) ''Ingredient''
           # rel_row ''HAS_INGREDIENT'' c ''Product'' i ''Ingredient''
           # allergen_rows i @ conflict_rows i @ more) = ledger_keys (?w1 \<union> set ings)"
      using rest_keys keys a b by (simp add: ledger_keys_insert)
    ultimately show ?thesis using m False by (simp add: Let_def)
  qed
qed


lemma proxies_loop_ordered:
  assumes "set as \<subseteq> set KNOWN_ALLERGENS"
  shows "ordered_rows (ledger_keys w) (fst (proxies_loop c parsed w as))
   \<and> ledger_keys w \<union> node_keys (fst (proxies_loop c parsed w as))
       = ledger_keys (snd (proxies_loop c parsed w as))"
  using assms
proof (induction as arbitrary: w)
  case Nil
  then show ?case by simp
next
  case (Cons a as)
  then have a: "a \<in> set KNOWN_ALLERGENS" and as: "set as \<subseteq> set KNOWN_ALLERGENS" by auto
  show ?case
  proof (cases "is_explained_by_ingredient a parsed")
    case True
    with Cons.IH [OF as, of w] show ?thesis by simp
  next
    case False
    let ?p = "proxy_ingredient_name a c"
    let ?w1 = "insert ?p w"
    obtain more w2 where m: "proxies_loop c parsed ?w1 as = (more, w2)"
      by (cases "proxies_loop c parsed ?w1 as")
    from Cons.IH [OF as, of ?w1] m
    have more: "ordered_rows (ledger_keys ?w1) more"
      and keys: "ledger_keys ?w1 \<union> node_keys more = ledger_keys w2" by auto
    have al: "(PStr ''Allergen'', PStr a) \<in> ledger_keys ?w1" using a by (rule ledger_keys_allergen)
    have rest: "ordered_rows (ledger_keys ?w1)
        (rel_row ''HAS_INGREDIENT'' c ''Product'' ?p ''Ingredient''
           # rel_row ''IS_ALLERGEN'' ?p ''Ingredient'' a ''Allergen'' # more)"
      using more al by simp
    show ?thesis
    proof (cases "?p \<in> w")
      case True
      then have "?w1 = w" by auto
      with rest keys m True False show ?thesis by (simp add: Let_def)
    next
      case np: False
      have "ordered_rows (ledger_keys w)
          (node_row ?p (PStr []) ''Ingredient'' # rel_row ''HAS_INGREDIENT'' c ''Product'' ?p ''Ingredient''
             # rel_row ''IS_ALLERGEN'' ?p ''Ingredient'' a ''Allergen'' # more)"
        using rest np by (simp add: ledger_keys_insert del: ordered_rows.simps(2))
           (simp add: ledger_keys_insert)
      moreover have "ledger_keys w \<union> node_keys (node_row ?p (PStr []) ''Ingredient''
             # rel_row ''HAS_INGREDIENT'' c ''Product'' ?p ''Ingredient''
             # rel_row ''IS_ALLERGEN'' ?p ''Ingredient'' a ''Allergen'' # more) = ledger_keys w2"
        using keys by (simp add: ledger_keys_insert)
      ultimately show ?thesis using m np False by (simp add: Let_def)
    qed
  qed
qed

lemma process_product_ordered:
  "ordered_rows (ledger_keys w) (fst (process_product tr w d))
   \<and> ledger_keys w \<union> node_keys (fst (process_product tr w d))
       = ledger_keys (fst (snd (process_product tr w d)))"
proof (cases rule: process_product_cases [of tr w d])
  case skipped
  then show ?thesis by simp
next
  case (raised c e)
  then show ?thesis by simp
next
  case (processed c parsed)
  let ?explicit = "explicit_product_allergens (doc_get_default allergens_tags d (PList []))"
  let ?traces = "processed_traces_allergens (doc_get_default traces_tags d (PList []))"
  let ?suit = "suitable_diet_prefs_for_product (product_dietary_labels (doc_get_default labels_tags d (PList [])))"
  let ?ing = "fst (ingredients_loop c w parsed)"
  let ?w1 = "w \<union> set parsed"
  let ?prox = "fst (proxies_loop c parsed ?w1 ?explicit)"
  let ?w2 = "snd (proxies_loop c parsed ?w1 ?explicit)"
  let ?tr = "map (\<lambda>a. rel_row ''MAY_CONTAIN_ALLERGEN'' c ''Product'' a ''Allergen'') ?traces"
  let ?su = "map (\<lambda>p. rel_row ''IS_SUITABLE_FOR'' c ''Product'' p ''DietaryPreference'') ?suit"
  note eq = process_product_processed [OF processed, of w]
  have i: "ordered_rows (ledger_keys w) ?ing" "ledger_keys w \<union> node_keys ?ing = ledger_keys ?w1"
    using ingredients_loop_ordered [of w c parsed] by auto
  have p: "ordered_rows (ledger_keys ?w1) ?prox" "ledger_keys ?w1 \<union> node_keys ?prox = ledger_keys ?w2"
    using proxies_loop_ordered [OF explicit_product_allergens_known(2), of ?w1 c parsed] by auto
  have t: "ordered_rows (ledger_keys ?w2) ?tr \<and> node_keys ?tr = {}"
    using processed_traces_allergens_known(2) ledger_keys_allergen
    by (intro relationships_ordered) auto
  have "set ?suit \<subseteq> fst ` set DIETARY_PREFERENCES_MAP"
    by (force simp: suitable_diet_prefs(2))
  then have s: "ordered_rows (ledger_keys ?w2) ?su \<and> node_keys ?su = {}"
    using ledger_keys_diet by (intro relationships_ordered) auto
  have ts: "ordered_rows (ledger_keys ?w2) (?tr @ ?su)" and kts: "node_keys (?tr @ ?su) = {}"
    using t s by (simp_all add: ordered_rows_append)
  have pts: "ordered_rows (ledger_keys ?w1) (?prox @ ?tr @ ?su)"
    using p ts ordered_rows_append [of "ledger_keys ?w1" ?prox "?tr @ ?su"] by simp
  have kpts: "ledger_keys ?w1 \<union> node_keys (?prox @ ?tr @ ?su) = ledger_keys ?w2"
    using p(2) kts node_keys_append [of ?prox "?tr @ ?su"] by simp
  have all: "ordered_rows (ledger_keys w) (?ing @ ?prox @ ?tr @ ?su)"
    using i pts ordered_rows_append [of "ledger_keys w" ?ing "?prox @ ?tr @ ?su"] by simp
  have "ledger_keys w \<union> node_keys (?ing @ ?prox @ ?tr @ ?su)
      = (ledger_keys w \<union> node_keys ?ing) \<union> node_keys (?prox @ ?tr @ ?su)"
    using node_keys_append [of ?ing "?prox @ ?tr @ ?su"] by (simp only: Un_assoc)
  with i(2) kpts have "ledger_keys w \<union> node_keys (?ing @ ?prox @ ?tr @ ?su) = ledger_keys ?w2"
    by simp
  with all show ?thesis by (simp add: eq del: node_keys_append)
qed

lemma write_nodes_once_fresh:
  "distinct names \<Longrightarrow> set names \<inter> written = {} \<Longrightarrow>
   write_nodes_once label written names = map (\<lambda>n. node_row n (PStr []) label) names"
  by (induction names arbitrary: written) auto

lemma node_rows_ordered:
  assumes "label \<noteq> ''Product''" and "distinct names"
    and "\<forall>n\<in>set names. (PStr label, PStr n) \<notin> S"
  shows "ordered_rows S (map (\<lambda>n. node_row n (PStr []) label) names)"
  using assms(2,3)
proof (induction names arbitrary: S)
  case Nil
  then show ?case by simp
next
  case (Cons n names)
  then have "ordered_rows (insert (PStr label, PStr n) S) (map (\<lambda>n. node_row n (PStr []) label) names)"
    by (intro Cons.IH) auto
  with Cons.prems assms(1) show ?case by simp
qed

lemma node_keys_node_rows:
  "label \<noteq> ''Product'' \<Longrightarrow>
   node_keys (map (\<lambda>n. node_row n (PStr []) label) names) = (\<lambda>n. (PStr label, PStr n)) ` set names"
  by (induction names) auto

lemma distinct_KNOWN_ALLERGENS: "distinct KNOWN_ALLERGENS"
  by (simp add: KNOWN_ALLERGENS_def)

lemma distinct_preferences: "distinct (map fst DIETARY_PREFERENCES_MAP)"
  by (simp add: DIETARY_PREFERENCES_MAP_def)

lemma preamble_rows:
  "preamble = map PStr CSV_HEADER
     # map (\<lambda>n. node_row n (PStr []) ''Allergen'') KNOWN_ALLERGENS
     @ map (\<lambda>n. node_row n (PStr []) ''DietaryPreference'') (map fst DIETARY_PREFERENCES_MAP)"
  by (simp add: preamble_def write_nodes_once_fresh distinct_KNOWN_ALLERGENS distinct_preferences
      del: map_map)

lemma header_cells: "line_type (map PStr CSV_HEADER) = PStr ''LineType''"
  by (simp add: CSV_HEADER_def line_type_def cell_def)

lemma preamble_ordered: "ordered_rows {} preamble \<and> node_keys preamble = ledger_keys {}"
proof -
  let ?A = "map (\<lambda>n. node_row n (PStr []) ''Allergen'') KNOWN_ALLERGENS"
  let ?D = "map (\<lambda>n. node_row n (PStr []) ''DietaryPreference'') (map fst DIETARY_PREFERENCES_MAP)"
  have kA: "node_keys ?A = (\<lambda>n. (PStr ''Allergen'', PStr n)) ` set KNOWN_ALLERGENS"
    by (rule node_keys_node_rows) simp
  have kD: "node_keys ?D = (\<lambda>n. (PStr ''DietaryPreference'', PStr n)) ` fst ` set DIETARY_PREFERENCES_MAP"
    using node_keys_node_rows [of "''DietaryPreference''" "map fst DIETARY_PREFERENCES_MAP"] by simp
  have oA: "ordered_rows {} ?A"
    by (intro node_rows_ordered distinct_KNOWN_ALLERGENS) simp_all
  have oD: "ordered_rows ({} \<union> node_keys ?A) ?D"
    unfolding kA by (intro node_rows_ordered distinct_preferences) auto
  have "ordered_rows {} (?A @ ?D)" using oA oD by (simp only: ordered_rows_append)
  moreover have "node_keys (?A @ ?D) = ledger_keys {}"
    unfolding node_keys_append kA kD by (simp add: ledger_keys_def)
  ultimately show ?thesis
    unfolding preamble_rows by (simp add: header_cells del: map_map map_append)
qed

lemma products_loop_ordered:
  assumes "ordered_rows {} (out st)" and "node_keys (out st) = ledger_keys (written_ingredients st)"
  shows "ordered_rows {} (out (fst (products_loop tr st docs)))"
  using assms
proof (induction docs arbitrary: st)
  case Nil
  then show ?case by simp
next
  case (Cons d ds)
  obtain rows w oc where p: "process_product tr (written_ingredients st) d = (rows, w, oc)"
    by (cases "process_product tr (written_ingredients st) d") auto
  from process_product_ordered [of "written_ingredients st" tr d] p
  have r: "ordered_rows (ledger_keys (written_ingredients st)) rows"
    and k: "ledger_keys (written_ingredients st) \<union> node_keys rows = ledger_keys w" by auto
  have o: "ordered_rows {} (out st @ rows)"
    using Cons.prems r by (simp add: ordered_rows_append)
  have n: "node_keys (out st @ rows) = ledger_keys w"
    using Cons.prems k by simp
  show ?case
  proof (cases oc)
    case Skipped
    with Cons.IH [of "st\<lparr>missing_code_skipped := missing_code_skipped st + 1\<rparr>"] Cons.prems p
    show ?thesis by simp
  next
    case Processed
    with Cons.IH [of "st\<lparr>out := out st @ rows, written_ingredients := w,
                 processed_count := processed_count st + 1\<rparr>"] o n p
    show ?thesis by simp
  next
    case (Raised e)
    with o p show ?thesis by simp
  qed
qed

lemma run_rows_ordered: "ordered_rows {} (out (fst (products_loop tr initial_state docs)))"
proof (rule products_loop_ordered)
  show "ordered_rows {} (out initial_state)"
    using preamble_ordered by (simp add: initial_state_def)
  show "node_keys (out initial_state) = ledger_keys (written_ingredients initial_state)"
    using preamble_ordered by (simp add: initial_state_def)
qed


section \<open>Product rows\<close>

lemma count_nodes_none:
  "\<forall>r\<in>set xs. \<not> (line_type r = PStr ''Node'' \<and> row_label r = k) \<Longrightarrow> count_nodes k i xs = 0"
  by (induction xs) auto

lemma process_product_count_products:
  "count_nodes (PStr ''Product'') (PStr c) (fst (process_product tr w d))
     \<le> (if code d = Some (PStr c) then 1 else 0)"
proof (cases rule: process_product_cases [of tr w d])
  case skipped
  then show ?thesis by simp
next
  case (raised c' e)
  then show ?thesis by simp
next
  case (processed c' parsed)
  let ?explicit = "explicit_product_allergens (doc_get_default allergens_tags d (PList []))"
  let ?ing = "fst (ingredients_loop c' w parsed)"
  let ?prox = "fst (proxies_loop c' parsed (w \<union> set parsed) ?explicit)"
  have i: "count_nodes (PStr ''Product'') (PStr c) ?ing = 0"
  proof (rule count_nodes_none, rule ballI)
    fix r assume "r \<in> set ?ing"
    from ingredients_loop_mem [OF this] allergen_rows_mem conflict_rows_mem
    show "\<not> (line_type r = PStr ''Node'' \<and> row_label r = PStr ''Product'')" by fastforce
  qed
  have p: "count_nodes (PStr ''Product'') (PStr c) ?prox = 0"
  proof (rule count_nodes_none, rule ballI)
    fix r assume "r \<in> set ?prox"
    from proxies_loop_mem [OF this]
    show "\<not> (line_type r = PStr ''Node'' \<and> row_label r = PStr ''Product'')" by fastforce
  qed
  have t: "count_nodes (PStr ''Product'') (PStr c) (map (\<lambda>a. rel_row t c' l a m) xs) = 0" for t l m xs
    by (rule count_nodes_none) auto
  show ?thesis
    using i p t processed(1)
    by (simp add: process_product_processed [OF processed, of w])
qed

lemma products_loop_count_products:
  "count_nodes (PStr ''Product'') (PStr c) (out (fst (products_loop tr st docs)))
     \<le> count_nodes (PStr ''Product'') (PStr c) (out st)
        + length (filter (\<lambda>d. code d = Some (PStr c)) docs)"
proof (induction docs arbitrary: st)
  case Nil
  then show ?case by simp
next
  case (Cons d ds)
  obtain rows w oc where p: "process_product tr (written_ingredients st) d = (rows, w, oc)"
    by (cases "process_product tr (written_ingredients st) d") auto
  from process_product_count_products [of c tr "written_ingredients st" d] p
  have r: "count_nodes (PStr ''Product'') (PStr c) rows \<le> (if code d = Some (PStr c) then 1 else 0)"
    by simp
  show ?case
  proof (cases oc)
    case Skipped
    with Cons.IH [of "st\<lparr>missing_code_skipped := missing_code_skipped st + 1\<rparr>"] p
    show ?thesis by (simp add: le_SucI)
  next
    case Processed
    with Cons.IH [of "st\<lparr>out := out st @ rows, written_ingredients := w,
                 processed_count := processed_count st + 1\<rparr>"] r p
    show ?thesis by (auto split: if_splits)
  next
    case (Raised e)
    with r p show ?thesis by (auto split: if_splits)
  qed
qed

lemma preamble_count_products: "count_nodes (PStr ''Product'') i preamble = 0"
  unfolding preamble_rows
  by (rule count_nodes_none) (auto simp: header_cells)

lemma run_rows_count_products:
  "count_nodes (PStr ''Product'') (PStr c) (out (fst (products_loop tr initial_state docs)))
     \<le> length (filter (\<lambda>d. code d = Some (PStr c)) docs)"
  using products_loop_count_products [of c tr initial_state docs]
  by (simp add: initial_state_def preamble_count_products)

section \<open>The file of a run\<close>

lemma file_rows_prefix:
  assumes "file_rows (generate_csv_data tr snk docs) = Some rows"
  shows "\<exists>n. rows = take n (out (fst (products_loop tr initial_state docs)))"
proof -
  obtain st e where l: "products_loop tr initial_state docs = (st, e)"
    by (cases "products_loop tr initial_state docs")
  from assms have "fst (try_block tr snk docs) = Some rows"
    by (auto simp: generate_csv_data_def split: if_splits prod.splits option.splits exn.splits)
  then have "fst (with_body tr snk docs) = rows"
    by (auto simp: try_block_def split: if_splits prod.splits)
  with l have "rows = take (the (room snk)) (out st) \<or> rows = out st"
    by (auto simp: with_body_def loop_end_def split: if_splits option.splits)
  then have "rows = take (the (room snk)) (out st) \<or> rows = take (length (out st)) (out st)"
    by simp
  with l show ?thesis by (metis fst_conv)
qed

text \<open>
  C4. In the file of a run, whatever the records and wherever the stream may fail: a kind
  other than Product and an identifier have at most one Node row; the ends of every
  Relationship row that are not products have exactly one Node row each, however many
  rows refer to them; and a product code has at most as many Product rows as there are
  records with that code.
\<close>

theorem C4_node_rows_once:
  assumes "file_rows (generate_csv_data tr snk docs) = Some rows"
  shows "(\<forall>kind ident. kind \<noteq> PStr ''Product'' \<longrightarrow> count_nodes kind ident rows \<le> 1)
       \<and> (\<forall>r\<in>set rows. line_type r = PStr ''Relationship'' \<longrightarrow>
             (from_label r \<noteq> PStr ''Product'' \<longrightarrow> count_nodes (from_label r) (from_id r) rows = 1)
           \<and> (to_label r \<noteq> PStr ''Product'' \<longrightarrow> count_nodes (to_label r) (to_id r) rows = 1))
       \<and> (\<forall>c. count_nodes (PStr ''Product'') (PStr c) rows
                \<le> length (filter (\<lambda>d. code d = Some (PStr c)) docs))"
proof -
  from file_rows_prefix [OF assms] obtain n
    where rows: "rows = take n (out (fst (products_loop tr initial_state docs)))" by blast
  have o: "ordered_rows {} rows"
    unfolding rows by (rule ordered_rows_take) (rule run_rows_ordered)
  have 1: "count_nodes kind ident rows \<le> 1" if "kind \<noteq> PStr ''Product''" for kind ident
    using ordered_rows_count [OF o that] by simp
  have 2: "(from_label r \<noteq> PStr ''Product'' \<longrightarrow> count_nodes (from_label r) (from_id r) rows = 1)
         \<and> (to_label r \<noteq> PStr ''Product'' \<longrightarrow> count_nodes (to_label r) (to_id r) rows = 1)"
    if "r \<in> set rows" and "line_type r = PStr ''Relationship''" for r
    using ordered_rows_exactly_one [OF o that] .
  have 3: "count_nodes (PStr ''Product'') (PStr c) rows
      \<le> length (filter (\<lambda>d. code d = Some (PStr c)) docs)" for c
    using count_nodes_take [of "PStr ''Product''" "PStr c" n "out (fst (products_loop tr initial_state docs))"]
      run_rows_count_products [of c tr docs]
    unfolding rows by linarith
  from 1 2 3 show ?thesis by blast
qed


lemma allergen_rows_salt: "allergen_rows ''salt'' = []"
  by (simp add: allergen_rows_def table_eval)

lemma conflict_rows_salt: "conflict_rows ''salt'' = []"
  by (simp add: conflict_rows_def is_conflicting_ingredient_def table_eval)

lemma process_salt_doc:
  assumes "strip c \<noteq> []"
  shows "process_product sample_table w (salt_doc c) =
     (node_row c (PStr (''Product '' @ c)) ''Product''
        # (if ''salt'' \<in> w then [] else [node_row ''salt'' (PStr []) ''Ingredient''])
        @ [rel_row ''HAS_INGREDIENT'' c ''Product'' ''salt'' ''Ingredient''],
      insert ''salt'' w, Processed)"
proof -
  have c: "code (salt_doc c) = Some (PStr c)" by (simp add: salt_doc_def empty_doc_def)
  have p: "parse_ingredients_from_text sample_table (ingredients_text_of (salt_doc c)) = Inr [''salt'']"
    by (simp add: salt_doc_def empty_doc_def ingredients_text_of_def py_or_def doc_get_def
        doc_get_default_def parse_eval)
  show ?thesis
    by (simp add: process_product_processed [OF c assms p] allergen_rows_salt conflict_rows_salt)
       (simp add: salt_doc_def empty_doc_def choose_name_def py_or_def doc_get_def doc_get_default_def
         explicit_product_allergens_def processed_traces_allergens_def product_dietary_labels_def
         suitable_diet_prefs_for_product_def tags_as_list_def DIETARY_PREFERENCES_MAP_def)
qed

theorem C4_node_rows_once_witness:
  "file_rows (generate_csv_data sample_table \<lparr>can_open = True, room = None, close_fails = False\<rparr>
               [salt_doc ''1'', salt_doc ''2'', salt_doc ''1''])
     = Some (preamble @
         [node_row ''1'' (PStr ''Product 1'') ''Product'',
          node_row ''salt'' (PStr []) ''Ingredient'',
          rel_row ''HAS_INGREDIENT'' ''1'' ''Product'' ''salt'' ''Ingredient'',
          node_row ''2'' (PStr ''Product 2'') ''Product'',
          rel_row ''HAS_INGREDIENT'' ''2'' ''Product'' ''salt'' ''Ingredient'',
          node_row ''1'' (PStr ''Product 1'') ''Product'',
          rel_row ''HAS_INGREDIENT'' ''1'' ''Product'' ''salt'' ''Ingredient''])
   \<and> count_nodes (PStr ''Ingredient'') (PStr ''salt'')
        (the (file_rows (generate_csv_data sample_table \<lparr>can_open = True, room = None, close_fails = False\<rparr>
               [salt_doc ''1'', salt_doc ''2'', salt_doc ''1'']))) = 1
   \<and> count_nodes (PStr ''Product'') (PStr ''1'')
        (the (file_rows (generate_csv_data sample_table \<lparr>can_open = True, room = None, close_fails = False\<rparr>
               [salt_doc ''1'', salt_doc ''2'', salt_doc ''1'']))) \<le> 2"
proof -
  let ?docs = "[salt_doc ''1'', salt_doc ''2'', salt_doc ''1'']"
  let ?rows = "preamble @
         [node_row ''1'' (PStr ''Product 1'') ''Product'',
          node_row ''salt'' (PStr []) ''Ingredient'',
          rel_row ''HAS_INGREDIENT'' ''1'' ''Product'' ''salt'' ''Ingredient'',
          node_row ''2'' (PStr ''Product 2'') ''Product'',
          rel_row ''HAS_INGREDIENT'' ''2'' ''Product'' ''salt'' ''Ingredient'',
          node_row ''1'' (PStr ''Product 1'') ''Product'',
          rel_row ''HAS_INGREDIENT'' ''1'' ''Product'' ''salt'' ''Ingredient'']"
  have s: "strip ''1'' \<noteq> []" "strip ''2'' \<noteq> []" by (simp_all add: strip_def is_space_ascii)
  have f: "file_rows (generate_csv_data sample_table \<lparr>can_open = True, room = None, close_fails = False\<rparr> ?docs) = Some ?rows"
    by (simp add: generate_csv_data_def try_block_def with_body_def loop_end_def process_salt_doc s
        initial_state_def)
  have m: "rel_row ''HAS_INGREDIENT'' ''1'' ''Product'' ''salt'' ''Ingredient'' \<in> set ?rows" by simp
  have n: "length (filter (\<lambda>d. code d = Some (PStr ''1'')) ?docs) = 2"
    by (simp add: salt_doc_def empty_doc_def)
  note c4 = C4_node_rows_once [OF f]
  from c4 have "\<forall>r\<in>set ?rows. line_type r = PStr ''Relationship'' \<longrightarrow>
             (from_label r \<noteq> PStr ''Product'' \<longrightarrow> count_nodes (from_label r) (from_id r) ?rows = 1)
           \<and> (to_label r \<noteq> PStr ''Product'' \<longrightarrow> count_nodes (to_label r) (to_id r) ?rows = 1)"
    by (rule conjunct1 [OF conjunct2])
  from this [rule_format, OF m]
  have one: "count_nodes (PStr ''Ingredient'') (PStr ''salt'') ?rows = 1"
    by (simp only: cells_rel_row) simp
  from c4 have "\<forall>c. count_nodes (PStr ''Product'') (PStr c) ?rows
                \<le> length (filter (\<lambda>d. code d = Some (PStr c)) ?docs)"
    by (rule conjunct2 [OF conjunct2])
  from this [rule_format, of "''1''"] n
  have two: "count_nodes (PStr ''Product'') (PStr ''1'') ?rows \<le> 2"
    by (simp only:)
  show ?thesis
    unfolding f option.sel by (intro conjI refl one two)
qed


section \<open>Failure of the output stream\<close>











section \<open>Proxy ingredients\<close>

lemma cells_node_row_ends [simp]:
  "from_id (node_row i n l) = PStr []" "to_id (node_row i n l) = PStr []"
  "from_label (node_row i n l) = PStr []" "to_label (node_row i n l) = PStr []"
  by (simp_all add: node_row_def cell_def from_id_def to_id_def from_label_def to_label_def)

lemma proxies_loop_emits:
  assumes "a \<in> set as" and "\<not> is_explained_by_ingredient a parsed"
  shows "rel_row ''HAS_INGREDIENT'' c ''Product'' (proxy_ingredient_name a c) ''Ingredient''
           \<in> set (fst (proxies_loop c parsed w as))
       \<and> rel_row ''IS_ALLERGEN'' (proxy_ingredient_name a c) ''Ingredient'' a ''Allergen''
           \<in> set (fst (proxies_loop c parsed w as))
       \<and> (node_row (proxy_ingredient_name a c) (PStr []) ''Ingredient''
             \<in> set (fst (proxies_loop c parsed w as))
           \<or> proxy_ingredient_name a c \<in> w)"
  using assms(1)
proof (induction as arbitrary: w)
  case Nil
  then show ?case by simp
next
  case (Cons b as)
  show ?case
  proof (cases "is_explained_by_ingredient b parsed")
    case True
    with Cons.prems assms(2) have "a \<in> set as" by auto
    from Cons.IH [OF this, of w] True show ?thesis by simp
  next
    case False
    let ?w1 = "insert (proxy_ingredient_name b c) w"
    obtain more w2 where m: "proxies_loop c parsed ?w1 as = (more, w2)"
      by (cases "proxies_loop c parsed ?w1 as")
    show ?thesis
    proof (cases "a = b")
      case True
      with False m show ?thesis by (simp add: Let_def)
    next
      case ne: False
      with Cons.prems have "a \<in> set as" by simp
      from Cons.IH [OF this, of ?w1] m ne False show ?thesis
        by (auto simp: Let_def)
    qed
  qed
qed

lemma products_loop_contains:
  assumes "products_loop tr st docs = (st', None)" and "d \<in> set docs"
  shows "\<exists>w. set (fst (process_product tr w d)) \<subseteq> set (out st')"
  using assms
proof (induction docs arbitrary: st)
  case Nil
  then show ?case by simp
next
  case (Cons x xs)
  obtain rows w oc where p: "process_product tr (written_ingredients st) x = (rows, w, oc)"
    by (cases "process_product tr (written_ingredients st) x") auto
  show ?case
  proof (cases oc)
    case Skipped
    let ?st1 = "st\<lparr>missing_code_skipped := missing_code_skipped st + 1\<rparr>"
    from Cons.prems(1) p Skipped have l: "products_loop tr ?st1 xs = (st', None)" by simp
    show ?thesis
    proof (cases "d = x")
      case True
      have "rows = []"
      proof (cases rule: process_product_cases [of tr "written_ingredients st" x])
        case skipped
        with p show ?thesis by simp
      next
        case (raised c e)
        with p Skipped show ?thesis by simp
      next
        case (processed c parsed)
        from process_product_processed [OF processed, of "written_ingredients st"] p Skipped
        show ?thesis by simp
      qed
      with p True have "set (fst (process_product tr (written_ingredients st) d)) \<subseteq> set (out st')"
        by simp
      then show ?thesis by blast
    next
      case False
      with Cons.prems(2) have "d \<in> set xs" by simp
      from Cons.IH [OF l this] show ?thesis .
    qed
  next
    case Processed
    let ?st1 = "st\<lparr>out := out st @ rows, written_ingredients := w,
                 processed_count := processed_count st + 1\<rparr>"
    from Cons.prems(1) p Processed have l: "products_loop tr ?st1 xs = (st', None)" by simp
    show ?thesis
    proof (cases "d = x")
      case True
      obtain more where "out (fst (products_loop tr ?st1 xs)) = out ?st1 @ more"
        using products_loop_out_prefix by blast
      with l have "out st' = out st @ rows @ more" by simp
      with p True have "set (fst (process_product tr (written_ingredients st) d)) \<subseteq> set (out st')"
        by auto
      then show ?thesis by blast
    next
      case False
      with Cons.prems(2) have "d \<in> set xs" by simp
      from Cons.IH [OF l this] show ?thesis .
    qed
  next
    case (Raised e)
    with Cons.prems(1) p show ?thesis by simp
  qed
qed

lemma finished_run:
  assumes "(INFO, ''Finished generating TSV'') \<in> set (log_lines (generate_csv_data tr snk docs))"
  shows "\<exists>st. products_loop tr initial_state docs = (st, None)
            \<and> file_rows (generate_csv_data tr snk docs) = Some (out st)"
proof -
  obtain st e where l: "products_loop tr initial_state docs = (st, e)"
    by (cases "products_loop tr initial_state docs")
  obtain f lg x where t: "try_block tr snk docs = (f, lg, x)"
    by (cases "try_block tr snk docs")
  from assms have d: "docs \<noteq> []"
    by (cases "docs = []") (simp_all add: generate_csv_data_def)
  from assms t d have m: "(INFO, ''Finished generating TSV'') \<in> set lg"
    by (auto simp: generate_csv_data_def split: option.splits exn.splits)
  from t m obtain rows y where o: "can_open snk" and w: "with_body tr snk docs = (rows, lg, y)"
    and f: "f = Some rows"
    by (auto simp: try_block_def split: if_splits prod.splits)
  from w l m have "e = None \<and> rows = out st"
    by (auto simp: with_body_def loop_end_def split: if_splits option.splits)
  moreover from t d f have "file_rows (generate_csv_data tr snk docs) = Some rows"
    by (auto simp: generate_csv_data_def split: option.splits exn.splits)
  ultimately show ?thesis using l by simp
qed

lemma cheese_explains_milk:
  "''cheese'' \<in> set parsed \<Longrightarrow> is_explained_by_ingredient ''en:milk'' parsed"
proof -
  assume c: "''cheese'' \<in> set parsed"
  have 1: "(kw ''cheese'', ''en:milk'') \<in> set INGREDIENT_TO_ALLERGEN_MAP"
    by (simp add: INGREDIENT_TO_ALLERGEN_MAP_def)
  have 2: "re_search True (kw ''cheese'') ''cheese''"
    by (simp add: kw_eval)
  from c 1 2 show ?thesis
    by (auto simp: is_explained_by_ingredient_def list_ex_iff)
qed

lemma KNOWN_ALLERGENS_no_underscore: "a \<in> set KNOWN_ALLERGENS \<Longrightarrow> CHR ''_'' \<notin> set a"
  by (auto simp: KNOWN_ALLERGENS_def)

lemma preferences_no_colon: "p \<in> fst ` set DIETARY_PREFERENCES_MAP \<Longrightarrow> CHR '':'' \<notin> set p"
  by (auto simp: DIETARY_PREFERENCES_MAP_def)

lemma proxy_has_underscore: "CHR ''_'' \<in> set (proxy_ingredient_name a c)"
  by (simp add: proxy_ingredient_name_def)

lemma proxy_not_code: "proxy_ingredient_name a c \<noteq> c"
proof
  assume "proxy_ingredient_name a c = c"
  then have "length (proxy_ingredient_name a c) = length c" by simp
  then show False by (simp add: proxy_ingredient_name_def)
qed


lemma not_explained_iff:
  "\<not> is_explained_by_ingredient a parsed \<longleftrightarrow>
     (\<forall>ing\<in>set parsed. \<forall>(pat, tag)\<in>set INGREDIENT_TO_ALLERGEN_MAP. tag = a \<longrightarrow> \<not> re_search True pat ing)"
  by (auto simp: is_explained_by_ingredient_def list_ex_iff)

text \<open>
  C5. A record that is processed and has the explicit allergen tag \<open>en:milk\<close>. If no parsed
  ingredient matches a pattern of the table that maps to \<open>en:milk\<close>, the rows of the record
  hold the \<open>HAS_INGREDIENT\<close> row from the product to the proxy
  \<open>en:milk_source_for_<code>\<close> and the \<open>IS_ALLERGEN\<close> row from the proxy to \<open>en:milk\<close>, and the
  Node row of the proxy unless the ledger already has the proxy; in the file of a run that
  finishes, the proxy has exactly one Node row, and both relationship rows are there. If
  \<open>cheese\<close> is among the parsed ingredients, no row of the record mentions the proxy.
\<close>

theorem C5_proxy_for_unexplained_milk:
  assumes "code d = Some (PStr c)" and "strip c \<noteq> []"
    and "parse_ingredients_from_text tr (ingredients_text_of d) = Inr parsed"
    and "''en:milk'' \<in> set (explicit_product_allergens (doc_get_default allergens_tags d (PList [])))"
  shows "((\<forall>ing\<in>set parsed. \<forall>(pat, tag)\<in>set INGREDIENT_TO_ALLERGEN_MAP.
              tag = ''en:milk'' \<longrightarrow> \<not> re_search True pat ing) \<longrightarrow>
            rel_row ''HAS_INGREDIENT'' c ''Product'' (proxy_ingredient_name ''en:milk'' c) ''Ingredient''
              \<in> set (fst (process_product tr w d))
          \<and> rel_row ''IS_ALLERGEN'' (proxy_ingredient_name ''en:milk'' c) ''Ingredient'' ''en:milk'' ''Allergen''
              \<in> set (fst (process_product tr w d))
          \<and> (node_row (proxy_ingredient_name ''en:milk'' c) (PStr []) ''Ingredient''
                \<in> set (fst (process_product tr w d))
              \<or> proxy_ingredient_name ''en:milk'' c \<in> w)
          \<and> (\<forall>snk docs rows.
                d \<in> set docs
                \<and> (INFO, ''Finished generating TSV'') \<in> set (log_lines (generate_csv_data tr snk docs))
                \<and> file_rows (generate_csv_data tr snk docs) = Some rows \<longrightarrow>
                count_nodes (PStr ''Ingredient'') (PStr (proxy_ingredient_name ''en:milk'' c)) rows = 1
                \<and> rel_row ''HAS_INGREDIENT'' c ''Product'' (proxy_ingredient_name ''en:milk'' c) ''Ingredient''
                    \<in> set rows
                \<and> rel_row ''IS_ALLERGEN'' (proxy_ingredient_name ''en:milk'' c) ''Ingredient'' ''en:milk'' ''Allergen''
                    \<in> set rows))
       \<and> (''cheese'' \<in> set parsed \<longrightarrow>
            (\<forall>r\<in>set (fst (process_product tr w d)).
               row_id r \<noteq> PStr (proxy_ingredient_name ''en:milk'' c)
               \<and> from_id r \<noteq> PStr (proxy_ingredient_name ''en:milk'' c)
               \<and> to_id r \<noteq> PStr (proxy_ingredient_name ''en:milk'' c)))"
proof -
  let ?explicit = "explicit_product_allergens (doc_get_default allergens_tags d (PList []))"
  let ?traces = "processed_traces_allergens (doc_get_default traces_tags d (PList []))"
  let ?suit = "suitable_diet_prefs_for_product (product_dietary_labels (doc_get_default labels_tags d (PList [])))"
  let ?P = "proxy_ingredient_name ''en:milk'' c"
  let ?HAS = "rel_row ''HAS_INGREDIENT'' c ''Product'' ?P ''Ingredient''"
  let ?ISA = "rel_row ''IS_ALLERGEN'' ?P ''Ingredient'' ''en:milk'' ''Allergen''"
  let ?NODE = "node_row ?P (PStr []) ''Ingredient''"
  note eq = process_product_processed [OF assms(1-3)]
  note names = parsed_names [OF assms(3)]
  have milk: "''en:milk'' \<in> set KNOWN_ALLERGENS" by (simp add: KNOWN_ALLERGENS_def)
  have Pcolon: "CHR '':'' \<in> set ?P" using milk by (rule proxy_has_colon)
  have Pnotparsed: "?P \<notin> set parsed" using names(3) Pcolon by blast
  have record_level: "?HAS \<in> set (fst (process_product tr w' d))
      \<and> ?ISA \<in> set (fst (process_product tr w' d))
      \<and> (?NODE \<in> set (fst (process_product tr w' d)) \<or> ?P \<in> w')"
    if ne: "\<not> is_explained_by_ingredient ''en:milk'' parsed" for w'
  proof -
    from proxies_loop_emits [OF assms(4) ne, of c "w' \<union> set parsed"] Pnotparsed
    show ?thesis by (auto simp: eq)
  qed
  have run_level: "count_nodes (PStr ''Ingredient'') (PStr ?P) rows = 1 \<and> ?HAS \<in> set rows \<and> ?ISA \<in> set rows"
    if ne: "\<not> is_explained_by_ingredient ''en:milk'' parsed"
      and d: "d \<in> set docs"
      and fin: "(INFO, ''Finished generating TSV'') \<in> set (log_lines (generate_csv_data tr snk docs))"
      and f: "file_rows (generate_csv_data tr snk docs) = Some rows" for snk docs rows
  proof -
    from finished_run [OF fin] f obtain st where l: "products_loop tr initial_state docs = (st, None)"
      and rows: "rows = out st" by auto
    from products_loop_contains [OF l d] obtain w' where
      sub: "set (fst (process_product tr w' d)) \<subseteq> set rows" using rows by blast
    from record_level [OF ne, of w'] sub have h: "?HAS \<in> set rows" and i: "?ISA \<in> set rows" by auto
    have o: "ordered_rows {} rows"
      using run_rows_ordered [of tr docs] l rows by simp
    from ordered_rows_exactly_one [OF o h] have "count_nodes (PStr ''Ingredient'') (PStr ?P) rows = 1"
      by simp
    with h i show ?thesis by simp
  qed
  have cheese: "row_id r \<noteq> PStr ?P \<and> from_id r \<noteq> PStr ?P \<and> to_id r \<noteq> PStr ?P"
    if ch: "''cheese'' \<in> set parsed" and r: "r \<in> set (fst (process_product tr w d))" for r
  proof -
    have ex: "is_explained_by_ingredient ''en:milk'' parsed" using ch by (rule cheese_explains_milk)
    have Pnc: "?P \<noteq> c" by (rule proxy_not_code)
    have Pne: "?P \<noteq> []" by (simp add: proxy_ingredient_name_def)
    have known: "a \<noteq> ?P" if "a \<in> set KNOWN_ALLERGENS" for a
      using KNOWN_ALLERGENS_no_underscore [OF that] proxy_has_underscore [of "''en:milk''" c] by auto
    have diet: "p \<noteq> ?P" if "p \<in> fst ` set DIETARY_PREFERENCES_MAP" for p
      using preferences_no_colon [OF that] Pcolon by auto
    have ing: "i \<noteq> ?P" if "i \<in> set parsed" for i
      using that Pnotparsed by auto
    from r consider
        (product) "r = node_row c (choose_name d c) ''Product''"
      | (ingredient) "r \<in> set (fst (ingredients_loop c w parsed))"
      | (proxy) "r \<in> set (fst (proxies_loop c parsed (w \<union> set parsed) ?explicit))"
      | (trace) "r \<in> (\<lambda>a. rel_row ''MAY_CONTAIN_ALLERGEN'' c ''Product'' a ''Allergen'') ` set ?traces"
      | (suitable) "r \<in> (\<lambda>p. rel_row ''IS_SUITABLE_FOR'' c ''Product'' p ''DietaryPreference'') ` set ?suit"
      by (auto simp: eq)
    then show ?thesis
    proof cases
      case product
      with Pnc Pne show ?thesis by auto
    next
      case ingredient
      from ingredients_loop_mem [OF this] consider
          i where "i \<in> set parsed" "r = node_row i (PStr []) ''Ingredient''"
        | i where "i \<in> set parsed" "r = rel_row ''HAS_INGREDIENT'' c ''Product'' i ''Ingredient''"
        | i where "i \<in> set parsed" "r \<in> set (allergen_rows i)"
        | i where "i \<in> set parsed" "r \<in> set (conflict_rows i)"
        by blast
      then show ?thesis
      proof cases
        case 1
        with ing Pne show ?thesis by auto
      next
        case 2
        with ing Pnc Pne show ?thesis by auto
      next
        case 3
        from allergen_rows_mem [OF 3(2)] obtain a where "a \<in> set KNOWN_ALLERGENS"
          and "r = rel_row ''IS_ALLERGEN'' i ''Ingredient'' a ''Allergen''" by blast
        with ing [OF 3(1)] known Pne show ?thesis by auto
      next
        case 4
        from conflict_rows_mem [OF 4(2)] obtain p where p: "p \<in> fst ` set DIETARY_CONFLICT_MAP"
          and rr: "r = rel_row ''CONFLICTS_WITH_DIET'' i ''Ingredient'' p ''DietaryPreference''" by blast
        from p conflict_diets_are_preferences have "p \<in> fst ` set DIETARY_PREFERENCES_MAP" by blast
        with rr ing [OF 4(1)] diet Pne show ?thesis by auto
      qed
    next
      case proxy
      from proxies_loop_mem [OF this] obtain a where a: "a \<in> set ?explicit"
        and na: "\<not> is_explained_by_ingredient a parsed"
        and rr: "r = node_row (proxy_ingredient_name a c) (PStr []) ''Ingredient''
          \<or> r = rel_row ''HAS_INGREDIENT'' c ''Product'' (proxy_ingredient_name a c) ''Ingredient''
          \<or> r = rel_row ''IS_ALLERGEN'' (proxy_ingredient_name a c) ''Ingredient'' a ''Allergen''"
        by blast
      from na ex have "a \<noteq> ''en:milk''" by auto
      then have pa: "proxy_ingredient_name a c \<noteq> ?P" by simp
      from a explicit_product_allergens_known(2) have "a \<in> set KNOWN_ALLERGENS" by blast
      then have "a \<noteq> ?P" by (rule known)
      with rr pa Pnc Pne show ?thesis by auto
    next
      case trace
      then obtain a where "a \<in> set ?traces"
        and rr: "r = rel_row ''MAY_CONTAIN_ALLERGEN'' c ''Product'' a ''Allergen''" by blast
      with processed_traces_allergens_known(2) have "a \<in> set KNOWN_ALLERGENS" by blast
      then have "a \<noteq> ?P" by (rule known)
      with rr Pnc Pne show ?thesis by auto
    next
      case suitable
      then obtain p where "p \<in> set ?suit"
        and rr: "r = rel_row ''IS_SUITABLE_FOR'' c ''Product'' p ''DietaryPreference''" by blast
      then have "p \<in> fst ` set DIETARY_PREFERENCES_MAP" by (force simp: suitable_diet_prefs(2))
      then have "p \<noteq> ?P" by (rule diet)
      with rr Pnc Pne show ?thesis by auto
    qed
  qed
  show ?thesis
    unfolding not_explained_iff [symmetric]
    using record_level [of w] run_level cheese by blast
qed


lemma salt_not_dairy:
  "\<forall>ing\<in>set [''salt'']. \<forall>(pat, tag)\<in>set INGREDIENT_TO_ALLERGEN_MAP.
      tag = ''en:milk'' \<longrightarrow> \<not> re_search True pat ing"
  by (simp add: table_eval)

theorem C5_proxy_for_unexplained_milk_witness:
  "rel_row ''HAS_INGREDIENT'' ''7'' ''Product'' ''en:milk_source_for_7'' ''Ingredient''
     \<in> set (fst (process_product sample_table {} milk_tag_doc))
   \<and> rel_row ''IS_ALLERGEN'' ''en:milk_source_for_7'' ''Ingredient'' ''en:milk'' ''Allergen''
     \<in> set (fst (process_product sample_table {} milk_tag_doc))
   \<and> node_row ''en:milk_source_for_7'' (PStr []) ''Ingredient''
     \<in> set (fst (process_product sample_table {} milk_tag_doc))
   \<and> rel_row ''HAS_INGREDIENT'' ''8'' ''Product'' ''en:milk_source_for_8'' ''Ingredient''
     \<notin> set (fst (process_product sample_table {} milk_tag_cheese_doc))
   \<and> rel_row ''IS_ALLERGEN'' ''en:milk_source_for_8'' ''Ingredient'' ''en:milk'' ''Allergen''
     \<notin> set (fst (process_product sample_table {} milk_tag_cheese_doc))
   \<and> node_row ''en:milk_source_for_8'' (PStr []) ''Ingredient''
     \<notin> set (fst (process_product sample_table {} milk_tag_cheese_doc))"
proof -
  have c7: "code milk_tag_doc = Some (PStr ''7'')" by (simp add: milk_tag_doc_def empty_doc_def)
  have s7: "strip ''7'' \<noteq> []" by (simp add: strip_def is_space_ascii)
  have p7: "parse_ingredients_from_text sample_table (ingredients_text_of milk_tag_doc) = Inr [''salt'']"
    by (simp add: milk_tag_doc_def empty_doc_def ingredients_text_of_def py_or_def doc_get_def
        doc_get_default_def parse_eval)
  have e7: "''en:milk'' \<in> set (explicit_product_allergens (doc_get_default allergens_tags milk_tag_doc (PList [])))"
    by (simp add: milk_tag_doc_def empty_doc_def doc_get_default_def explicit_product_allergens_def
        add_known_def clean_tag_def text_eval KNOWN_ALLERGENS_def)
  have c8: "code milk_tag_cheese_doc = Some (PStr ''8'')"
    by (simp add: milk_tag_cheese_doc_def empty_doc_def)
  have s8: "strip ''8'' \<noteq> []" by (simp add: strip_def is_space_ascii)
  have p8: "parse_ingredients_from_text sample_table (ingredients_text_of milk_tag_cheese_doc) = Inr [''cheese'']"
    by (simp add: milk_tag_cheese_doc_def empty_doc_def ingredients_text_of_def py_or_def doc_get_def
        doc_get_default_def parse_eval)
  have e8: "''en:milk'' \<in> set (explicit_product_allergens (doc_get_default allergens_tags milk_tag_cheese_doc (PList [])))"
    by (simp add: milk_tag_cheese_doc_def empty_doc_def doc_get_default_def explicit_product_allergens_def
        add_known_def clean_tag_def text_eval KNOWN_ALLERGENS_def)
  have n7: "proxy_ingredient_name ''en:milk'' ''7'' = ''en:milk_source_for_7''"
    and n8: "proxy_ingredient_name ''en:milk'' ''8'' = ''en:milk_source_for_8''"
    by (simp_all add: proxy_ingredient_name_def)
  note t7 = C5_proxy_for_unexplained_milk [OF c7 s7 p7 e7, of "{}", unfolded n7]
  note t8 = C5_proxy_for_unexplained_milk [OF c8 s8 p8 e8, of "{}", unfolded n8]
  from t7 salt_not_dairy have a:
    "rel_row ''HAS_INGREDIENT'' ''7'' ''Product'' ''en:milk_source_for_7'' ''Ingredient''
       \<in> set (fst (process_product sample_table {} milk_tag_doc))"
    "rel_row ''IS_ALLERGEN'' ''en:milk_source_for_7'' ''Ingredient'' ''en:milk'' ''Allergen''
       \<in> set (fst (process_product sample_table {} milk_tag_doc))"
    "node_row ''en:milk_source_for_7'' (PStr []) ''Ingredient''
       \<in> set (fst (process_product sample_table {} milk_tag_doc))"
    by blast+
  from t8 have b: "\<forall>r\<in>set (fst (process_product sample_table {} milk_tag_cheese_doc)).
       row_id r \<noteq> PStr ''en:milk_source_for_8''
       \<and> from_id r \<noteq> PStr ''en:milk_source_for_8''
       \<and> to_id r \<noteq> PStr ''en:milk_source_for_8''"
    by simp
  have b1: "rel_row ''HAS_INGREDIENT'' ''8'' ''Product'' ''en:milk_source_for_8'' ''Ingredient''
     \<notin> set (fst (process_product sample_table {} milk_tag_cheese_doc))"
    using b cells_rel_row(7) by blast
  have b2: "rel_row ''IS_ALLERGEN'' ''en:milk_source_for_8'' ''Ingredient'' ''en:milk'' ''Allergen''
     \<notin> set (fst (process_product sample_table {} milk_tag_cheese_doc))"
    using b cells_rel_row(5) by blast
  have b3: "node_row ''en:milk_source_for_8'' (PStr []) ''Ingredient''
     \<notin> set (fst (process_product sample_table {} milk_tag_cheese_doc))"
    using b cells_node_row(2) by blast
  from a b1 b2 b3 show ?thesis by (intro conjI)
qed


end
